theory Spec2Isabelle
  imports Main "HOL-Library.Product_Lexorder"
begin

section \<open>The syntax tree handed to the walker\<close>

text \<open>
  \<^verbatim>\<open>transformToJs\<close> (src/index.ts, lines 8-119) parses the text with the TypeScript
  compiler API, walks the tree with the local function \<^verbatim>\<open>walk\<close> and records edits
  on a magic-string buffer.  The parser, the buffer and the formatter are libraries;
  the walker is the code of this repository.  The tree is therefore an input of the
  model: a node carries what \<^verbatim>\<open>walk\<close> reads from it.
\<close>

datatype SyntaxKind =
    SourceFile | EndOfFileToken
  | ImportDeclaration | ImportClause | NamedImports | ImportSpecifier
  | ExportDeclaration | NamedExports | ExportSpecifier
  | AsExpression
  | TypeAliasDeclaration | InterfaceDeclaration | EnumDeclaration | ModuleDeclaration
  | VariableDeclaration
  | FunctionDeclaration | FunctionExpression | ArrowFunction
  | MethodDeclaration | Parameter | TypeParameter
  | JsxAttribute | JsxNamespacedName
  | ColonToken | LessThanToken | GreaterThanToken
  | OtherKind string

text \<open>
  What \<^verbatim>\<open>walk\<close> reads of an element of \<^verbatim>\<open>node.getChildren()\<close>: its kind, its
  \<^verbatim>\<open>pos\<close> and its \<^verbatim>\<open>end\<close>.
\<close>

datatype child = Child (ckind: SyntaxKind) (cpos: nat) (cend: nat)

text \<open>
  The named properties of a node that hold nodes.  \<^verbatim>\<open>ts.forEachChild\<close> visits the
  node-valued properties in a fixed order; a node stores them in that order, each
  tagged with the property it belongs to (an array property contributes one entry
  per element).
\<close>

datatype property =
    P_importClause | P_elements | P_expression | P_type
  | P_typeParameters | P_parameters | P_other

text \<open>
  \<open>pos\<close> is the full start (leading trivia included), \<open>getStart\<close> the start of the
  first token (what \<^verbatim>\<open>node.getStart()\<close> returns), \<open>getEnd\<close> is \<^verbatim>\<open>node.end\<close>.
\<close>

datatype node = Node
  (kind: SyntaxKind) (pos: nat) (getStart: nat) (getEnd: nat) (isTypeOnly: bool)
  (getChildren: "child list") (properties: "(property \<times> node) list")

definition propertyNodes :: "property \<Rightarrow> node \<Rightarrow> node list" where
  "propertyNodes r n = map snd (filter (\<lambda>qc. fst qc = r) (properties n))"

definition single :: "property \<Rightarrow> node \<Rightarrow> node option" where
  "single r n = (case propertyNodes r n of [] \<Rightarrow> None | c # _ \<Rightarrow> Some c)"

definition importClause :: "node \<Rightarrow> node option" where
  "importClause n = single P_importClause n"

definition elements :: "node \<Rightarrow> node list" where
  "elements n = propertyNodes P_elements n"

definition expression :: "node \<Rightarrow> node option" where
  "expression n = single P_expression n"

definition type :: "node \<Rightarrow> node option" where
  "type n = single P_type n"

definition typeParameters :: "node \<Rightarrow> node list" where
  "typeParameters n = propertyNodes P_typeParameters n"

definition parameters :: "node \<Rightarrow> node list" where
  "parameters n = propertyNodes P_parameters n"

definition forEachChild :: "node \<Rightarrow> node list" where
  "forEachChild n = map snd (properties n)"

section \<open>Strings\<close>

text \<open>\<^verbatim>\<open>String.prototype.substring\<close>: the indices are clamped and swapped if needed.\<close>

definition substring :: "string \<Rightarrow> nat \<Rightarrow> nat \<Rightarrow> string" where
  "substring s a b = (let lo = min a b; hi = max a b in take (hi - lo) (drop lo s))"

text \<open>\<^verbatim>\<open>node.getText()\<close> is the text from the first token of the node to its end.\<close>

definition getText :: "string \<Rightarrow> node \<Rightarrow> string" where
  "getText text n = substring text (getStart n) (getEnd n)"

text \<open>\<^verbatim>\<open>Array.prototype.join\<close>.\<close>

fun join :: "string \<Rightarrow> string list \<Rightarrow> string" where
  "join sep [] = []"
| "join sep [x] = x"
| "join sep (x # y # ys) = x @ sep @ join sep (y # ys)"

section \<open>The walker\<close>

text \<open>
  An edit is one call \<^verbatim>\<open>code.overwrite(start, end, content)\<close>.  The walker returns
  the calls it issues, in the order it issues them.
\<close>

type_synonym edit = "nat \<times> nat \<times> string"

text \<open>The range an edit overwrites: its \<open>start\<close> and its \<open>end\<close>.\<close>

definition editRange :: "edit \<Rightarrow> nat \<times> nat" where
  "editRange e = (fst e, fst (snd e))"

datatype error = TypeError

definition isImportDeclaration :: "node \<Rightarrow> bool" where
  "isImportDeclaration n = (kind n = ImportDeclaration)"

definition isNamedImports :: "node \<Rightarrow> bool" where
  "isNamedImports n = (kind n = NamedImports)"

definition isExportDeclaration :: "node \<Rightarrow> bool" where
  "isExportDeclaration n = (kind n = ExportDeclaration)"

definition isNamedExports :: "node \<Rightarrow> bool" where
  "isNamedExports n = (kind n = NamedExports)"

definition isAsExpression :: "node \<Rightarrow> bool" where
  "isAsExpression n = (kind n = AsExpression)"

definition isTypeAliasDeclaration :: "node \<Rightarrow> bool" where
  "isTypeAliasDeclaration n = (kind n = TypeAliasDeclaration)"

definition isInterfaceDeclaration :: "node \<Rightarrow> bool" where
  "isInterfaceDeclaration n = (kind n = InterfaceDeclaration)"

definition isEnumDeclaration :: "node \<Rightarrow> bool" where
  "isEnumDeclaration n = (kind n = EnumDeclaration)"

definition isModuleDeclaration :: "node \<Rightarrow> bool" where
  "isModuleDeclaration n = (kind n = ModuleDeclaration)"

definition isVariableDeclaration :: "node \<Rightarrow> bool" where
  "isVariableDeclaration n = (kind n = VariableDeclaration)"

definition isFunctionDeclaration :: "node \<Rightarrow> bool" where
  "isFunctionDeclaration n = (kind n = FunctionDeclaration)"

definition isFunctionExpression :: "node \<Rightarrow> bool" where
  "isFunctionExpression n = (kind n = FunctionExpression)"

definition isArrowFunction :: "node \<Rightarrow> bool" where
  "isArrowFunction n = (kind n = ArrowFunction)"

text \<open>\<^verbatim>\<open>node.getChildren().find((c) => c.kind === k)\<close>.\<close>

definition findChild :: "SyntaxKind \<Rightarrow> node \<Rightarrow> child option" where
  "findChild k n = List.find (\<lambda>c. ckind c = k) (getChildren n)"

text \<open>
  Lines 66-73, 93-100 and 102-109 are the same code on the declarator, the function
  and each parameter: if the node has a \<^verbatim>\<open>type\<close> and a colon token among its
  children, overwrite from the colon's \<^verbatim>\<open>pos\<close> to the type's \<^verbatim>\<open>end\<close> with the
  empty string.
\<close>

definition colonToTypeEnd :: "node \<Rightarrow> edit list" where
  "colonToTypeEnd n =
     (case type n of
        None \<Rightarrow> []
      | Some t \<Rightarrow>
          (case findChild ColonToken n of
             None \<Rightarrow> []
           | Some colonToken \<Rightarrow> [(cpos colonToken, getEnd t, '''')]))"

text \<open>Lines 81-92.\<close>

definition typeParameterList :: "node \<Rightarrow> edit list" where
  "typeParameterList n =
     (if typeParameters n \<noteq> [] then
        (case findChild LessThanToken n of
           None \<Rightarrow> []
         | Some ltToken \<Rightarrow>
             (case findChild GreaterThanToken n of
                None \<Rightarrow> []
              | Some gtToken \<Rightarrow> [(cpos ltToken, cend gtToken, '''')]))
      else [])"

text \<open>Lines 65-74.\<close>

definition variableEdits :: "node \<Rightarrow> edit list" where
  "variableEdits n = (if isVariableDeclaration n then colonToTypeEnd n else [])"

text \<open>Lines 76-111.\<close>

definition functionEdits :: "node \<Rightarrow> edit list" where
  "functionEdits n =
     (if isFunctionDeclaration n \<or> isFunctionExpression n \<or> isArrowFunction n then
        typeParameterList n @ colonToTypeEnd n @ concat (map colonToTypeEnd (parameters n))
      else [])"

text \<open>The specifiers that survive, lines 26 and 41.\<close>

definition valueSpecifiers :: "node \<Rightarrow> node list" where
  "valueSpecifiers n = filter (\<lambda>e. \<not> isTypeOnly e) (elements n)"

text \<open>
  The rules of lines 20-63 that end in \<^verbatim>\<open>return\<close>: the edit each one queues, if the
  node matches one of them.  \<^verbatim>\<open>node.expression\<close> of an as-expression is not optional
  in the parser's types; reading \<^verbatim>\<open>getText\<close> of a missing one throws.
\<close>

definition wholeRange :: "string \<Rightarrow> node \<Rightarrow> (error + edit) option" where
  "wholeRange text n =
     (if isImportDeclaration n \<and> (case importClause n of None \<Rightarrow> False | Some c \<Rightarrow> isTypeOnly c)
        then Some (Inr (pos n, getEnd n, ''''))
      else if isNamedImports n
        then Some (Inr (pos n, getEnd n,
               ''{'' @ join '','' (map (getText text) (valueSpecifiers n)) @ ''}''))
      else if isExportDeclaration n \<and> isTypeOnly n
        then Some (Inr (pos n, getEnd n, ''''))
      else if isNamedExports n
        then Some (Inr (pos n, getEnd n,
               ''{'' @ join '', '' (map (getText text) (valueSpecifiers n)) @ ''}''))
      else if isAsExpression n
        then (case expression n of
                None \<Rightarrow> Some (Inl TypeError)
              | Some e \<Rightarrow> Some (Inr (pos n, getEnd n, getText text e)))
      else if isTypeAliasDeclaration n \<or> isInterfaceDeclaration n
              \<or> isEnumDeclaration n \<or> isModuleDeclaration n
        then Some (Inr (pos n, getEnd n, ''''))
      else None)"

text \<open>
  \<^verbatim>\<open>walk\<close>, lines 19-114.  A node matched by a returning rule yields its one edit
  and is not descended into; any other node yields its annotation edits and then
  what the walk of its children yields, child after child.
\<close>

function walk :: "string \<Rightarrow> node \<Rightarrow> error + edit list"
  and walkChildren :: "string \<Rightarrow> (property \<times> node) list \<Rightarrow> error + edit list" where
  "walk text n =
     (case wholeRange text n of
        Some (Inl e) \<Rightarrow> Inl e
      | Some (Inr ed) \<Rightarrow> Inr [ed]
      | None \<Rightarrow>
          (case walkChildren text (properties n) of
             Inl e \<Rightarrow> Inl e
           | Inr es \<Rightarrow> Inr (variableEdits n @ functionEdits n @ es)))"
| "walkChildren text [] = Inr []"
| "walkChildren text (rc # cs) =
     (case walk text (snd rc) of
        Inl e \<Rightarrow> Inl e
      | Inr a \<Rightarrow> (case walkChildren text cs of Inl e \<Rightarrow> Inl e | Inr b \<Rightarrow> Inr (a @ b)))"
  by pat_completeness auto
termination
proof (relation "measure (\<lambda>x. case x of Inl (t, n) \<Rightarrow> 2 * size n + 1
                                      | Inr (t, cs) \<Rightarrow> 2 * size_list (size_prod (\<lambda>_. 0) size) cs)")
  fix src :: string and n :: node
  have "size_list (size_prod (\<lambda>_. 0) size) (properties n) < size n"
    by (cases n) simp
  then show "(Inr (src, properties n), Inl (src, n))
      \<in> measure (\<lambda>x. case x of Inl (t, n) \<Rightarrow> 2 * size n + 1
                               | Inr (t, cs) \<Rightarrow> 2 * size_list (size_prod (\<lambda>_. 0) size) cs)"
    by simp
qed auto

text \<open>
  The nodes on which \<^verbatim>\<open>walk\<close> is called, in call order: the node itself and, unless
  a returning rule matched it, the nodes visited from its children.
\<close>

definition typeOnlyClause :: "node \<Rightarrow> bool" where
  "typeOnlyClause n = (case importClause n of None \<Rightarrow> False | Some c \<Rightarrow> isTypeOnly c)"

definition wholeDeclaration :: "node \<Rightarrow> bool" where
  "wholeDeclaration n =
     ((isImportDeclaration n \<and> typeOnlyClause n) \<or> (isExportDeclaration n \<and> isTypeOnly n)
      \<or> isTypeAliasDeclaration n \<or> isInterfaceDeclaration n
      \<or> isEnumDeclaration n \<or> isModuleDeclaration n)"

definition returnsEarly :: "node \<Rightarrow> bool" where
  "returnsEarly n =
     (wholeDeclaration n \<or> isNamedImports n \<or> isNamedExports n \<or> isAsExpression n)"

function visited :: "node \<Rightarrow> node list"
  and visitedChildren :: "(property \<times> node) list \<Rightarrow> node list" where
  "visited n = n # (if returnsEarly n then [] else visitedChildren (properties n))"
| "visitedChildren [] = []"
| "visitedChildren (rc # cs) = visited (snd rc) @ visitedChildren cs"
  by pat_completeness auto
termination
proof (relation "measure (\<lambda>x. case x of Inl n \<Rightarrow> 2 * size n + 1
                                      | Inr cs \<Rightarrow> 2 * size_list (size_prod (\<lambda>_. 0) size) cs)")
  fix n :: node
  have "size_list (size_prod (\<lambda>_. 0) size) (properties n) < size n"
    by (cases n) simp
  then show "(Inr (properties n), Inl n)
      \<in> measure (\<lambda>x. case x of Inl n \<Rightarrow> 2 * size n + 1
                               | Inr cs \<Rightarrow> 2 * size_list (size_prod (\<lambda>_. 0) size) cs)"
    by simp
qed auto

text \<open>Every node of the tree below a node, the node included.\<close>

function nodesOf :: "node \<Rightarrow> node list"
  and nodesOfChildren :: "(property \<times> node) list \<Rightarrow> node list" where
  "nodesOf n = n # nodesOfChildren (properties n)"
| "nodesOfChildren [] = []"
| "nodesOfChildren (rc # cs) = nodesOf (snd rc) @ nodesOfChildren cs"
  by pat_completeness auto
termination
proof (relation "measure (\<lambda>x. case x of Inl n \<Rightarrow> 2 * size n + 1
                                      | Inr cs \<Rightarrow> 2 * size_list (size_prod (\<lambda>_. 0) size) cs)")
  fix n :: node
  have "size_list (size_prod (\<lambda>_. 0) size) (properties n) < size n"
    by (cases n) simp
  then show "(Inr (properties n), Inl n)
      \<in> measure (\<lambda>x. case x of Inl n \<Rightarrow> 2 * size n + 1
                               | Inr cs \<Rightarrow> 2 * size_list (size_prod (\<lambda>_. 0) size) cs)"
    by simp
qed auto

text \<open>
  The overwrite calls \<^verbatim>\<open>walk\<close> issues while it is at a node itself, before it
  descends: the edit of the returning rule that matched, or else the annotation
  edits.
\<close>

definition ownEdits :: "string \<Rightarrow> node \<Rightarrow> edit list" where
  "ownEdits text n =
     (case wholeRange text n of
        Some (Inl e) \<Rightarrow> []
      | Some (Inr ed) \<Rightarrow> [ed]
      | None \<Rightarrow> variableEdits n @ functionEdits n)"

text \<open>
  An edit that deletes from the \<open>pos\<close> of the first colon token among the children
  of a node to the \<open>end\<close> of the node's declared type.
\<close>

definition colonOfTypedNode :: "node \<Rightarrow> edit \<Rightarrow> bool" where
  "colonOfTypedNode n e =
     (case type n of
        None \<Rightarrow> False
      | Some t \<Rightarrow>
          (case findChild ColonToken n of
             None \<Rightarrow> False
           | Some colonToken \<Rightarrow> e = (cpos colonToken, getEnd t, '''')))"

text \<open>The classifier recognizes a node when it queues an edit for it.\<close>

definition recognized :: "node \<Rightarrow> bool" where
  "recognized n = (returnsEarly n \<or> variableEdits n \<noteq> [] \<or> functionEdits n \<noteq> [])"

section \<open>The buffer\<close>

text \<open>
  Modelled from the spec: the Range-Splice Buffer is the magic-string library
  (\<^verbatim>\<open>new MagicString(tsCode)\<close>, \<^verbatim>\<open>code.overwrite\<close>, \<^verbatim>\<open>code.toString()\<close>), which is
  not under src/.  Section 4.2 of the spec: an overwrite has
  \<open>0 \<le> start \<le> end \<le> length\<close> of the original text and must not overlap a range
  queued before (a usage error); rendering returns the original text with all
  queued replacements applied in range order and every other region unchanged.
  \<open>toString\<close> is \<open>None\<close> on a usage error.
\<close>

definition inRange :: "string \<Rightarrow> edit \<Rightarrow> bool" where
  "inRange text e = (fst e \<le> fst (snd e) \<and> fst (snd e) \<le> length text)"

definition disjoint :: "edit \<Rightarrow> edit \<Rightarrow> bool" where
  "disjoint a b = (fst (snd a) \<le> fst b \<or> fst (snd b) \<le> fst a)"

fun pairwiseDisjoint :: "edit list \<Rightarrow> bool" where
  "pairwiseDisjoint [] = True"
| "pairwiseDisjoint (e # es) = ((\<forall>d \<in> set es. disjoint e d) \<and> pairwiseDisjoint es)"

fun applyEdits :: "string \<Rightarrow> nat \<Rightarrow> edit list \<Rightarrow> string" where
  "applyEdits text cur [] = drop cur text"
| "applyEdits text cur (e # es) =
     take (fst e - cur) (drop cur text) @ snd (snd e) @ applyEdits text (fst (snd e)) es"

definition rangeOrder :: "edit list \<Rightarrow> edit list" where
  "rangeOrder es = sort_key (\<lambda>e. (fst e, fst (snd e))) es"

definition toString :: "string \<Rightarrow> edit list \<Rightarrow> string option" where
  "toString text es =
     (if (\<forall>e \<in> set es. inRange text e) \<and> pairwiseDisjoint es
      then Some (applyEdits text 0 (rangeOrder es)) else None)"

text \<open>
  Lines 8-119 without the formatter: the text the walker's edits render to, before
  \<^verbatim>\<open>prettier.format\<close>.  \<open>ast\<close> is the tree \<^verbatim>\<open>ts.createSourceFile\<close> returns for
  \<open>tsCode\<close>; a throw in \<^verbatim>\<open>walk\<close> or a usage error of the buffer ends the call
  without output.
\<close>

definition transformToJs :: "node \<Rightarrow> string \<Rightarrow> string option" where
  "transformToJs ast tsCode =
     (case walk tsCode ast of
        Inl e \<Rightarrow> None
      | Inr es \<Rightarrow> toString tsCode es)"

section \<open>The parser's range contract\<close>

text \<open>
  The children that \<^verbatim>\<open>forEachChild\<close> visits lie inside their parent, in source
  order, one ending before the next begins.
\<close>

fun ordered :: "nat \<Rightarrow> nat \<Rightarrow> node list \<Rightarrow> bool" where
  "ordered lo hi [] = (lo \<le> hi)"
| "ordered lo hi (c # cs) = (lo \<le> pos c \<and> pos c \<le> getEnd c \<and> ordered (getEnd c) hi cs)"

definition childrenInOrder :: "node \<Rightarrow> bool" where
  "childrenInOrder n = ordered (pos n) (getEnd n) (forEachChild n)"

definition rangesNested :: "node \<Rightarrow> bool" where
  "rangesNested root = list_all childrenInOrder (nodesOf root)"

text \<open>
  The first token of a node starts at or after the node's \<open>pos\<close>, the text between
  the two being the node's leading trivia, and the node ends inside the text.
\<close>

definition rangeInText :: "string \<Rightarrow> node \<Rightarrow> bool" where
  "rangeInText text n = (pos n \<le> getStart n \<and> getStart n \<le> getEnd n \<and> getEnd n \<le> length text)"

definition rangesInText :: "string \<Rightarrow> node \<Rightarrow> bool" where
  "rangesInText text root = list_all (rangeInText text) (nodesOf root)"

text \<open>The ranges of a list of edits lie between two positions.\<close>

definition within :: "nat \<Rightarrow> nat \<Rightarrow> edit list \<Rightarrow> bool" where
  "within lo hi es = (\<forall>e \<in> set es. lo \<le> fst e \<and> fst (snd e) \<le> hi)"

text \<open>
  The tokens among \<^verbatim>\<open>node.getChildren()\<close> lie inside the node.
\<close>

definition tokensInside :: "node \<Rightarrow> bool" where
  "tokensInside n = list_all (\<lambda>c. pos n \<le> cpos c \<and> cend c \<le> getEnd n) (getChildren n)"

definition tokensNested :: "node \<Rightarrow> bool" where
  "tokensNested root = list_all tokensInside (nodesOf root)"

text \<open>
  The types lie apart from the other children of a node: the range from the first
  colon token of the node to the \<open>end\<close> of its type holds no child of the node but
  the type, the range from its first less-than token to the \<open>end\<close> of its first
  greater-than token holds no child but the type parameters, and the parameters of
  a node are parameter nodes.
\<close>

definition typesApart :: "node \<Rightarrow> bool" where
  "typesApart n =
     ((case type n of
         None \<Rightarrow> True
       | Some t \<Rightarrow>
           (case findChild ColonToken n of
              None \<Rightarrow> True
            | Some c \<Rightarrow>
                list_all (\<lambda>rc. fst rc = P_type \<or> getEnd (snd rc) \<le> cpos c \<or> getEnd t \<le> pos (snd rc))
                  (properties n))) \<and>
      (typeParameters n = [] \<or>
         (case findChild LessThanToken n of
            None \<Rightarrow> True
          | Some lt \<Rightarrow>
              (case findChild GreaterThanToken n of
                 None \<Rightarrow> True
               | Some gt \<Rightarrow>
                   list_all (\<lambda>rc. fst rc = P_typeParameters \<or> getEnd (snd rc) \<le> cpos lt \<or>
                       cend gt \<le> pos (snd rc))
                     (properties n)))) \<and>
      list_all (\<lambda>q. kind q = Parameter) (parameters n))"

text \<open>
  The range contract of a tree: at every node the children lie in order inside the
  node, the tokens lie inside the node, and the types lie apart.
\<close>

definition rangeContract :: "node \<Rightarrow> bool" where
  "rangeContract root =
     list_all (\<lambda>n. childrenInOrder n \<and> tokensInside n \<and> typesApart n) (nodesOf root)"

text \<open>
  A node lies outside the range of an edit; and a node is quiet when the
  classifier recognizes no node of it.
\<close>

definition outside :: "edit \<Rightarrow> node \<Rightarrow> bool" where
  "outside a c = (getEnd c \<le> fst a \<or> fst (snd a) \<le> pos c)"

definition quiet :: "node \<Rightarrow> bool" where
  "quiet c = list_all (\<lambda>m. \<not> recognized m) (nodesOf c)"

text \<open>
  The walk of \<open>n\<close> comes to \<open>x\<close> outside the types: no node on the way from \<open>n\<close>
  down to \<open>x\<close> is matched by a returning rule, and the way leads through no
  \<^verbatim>\<open>type\<close> and no \<^verbatim>\<open>typeParameters\<close> property.
\<close>

function reachedOutsideTypes :: "node \<Rightarrow> node \<Rightarrow> bool"
  and reachedOutsideTypesIn :: "node \<Rightarrow> (property \<times> node) list \<Rightarrow> bool" where
  "reachedOutsideTypes x n = (x = n \<or> (\<not> returnsEarly n \<and> reachedOutsideTypesIn x (properties n)))"
| "reachedOutsideTypesIn x [] = False"
| "reachedOutsideTypesIn x (rc # cs) =
     ((fst rc \<noteq> P_type \<and> fst rc \<noteq> P_typeParameters \<and> reachedOutsideTypes x (snd rc)) \<or>
      reachedOutsideTypesIn x cs)"
  by pat_completeness auto
termination
proof (relation "measure (\<lambda>x. case x of Inl (t, n) \<Rightarrow> 2 * size n + 1
                                      | Inr (t, cs) \<Rightarrow> 2 * size_list (size_prod (\<lambda>_. 0) size) cs)")
  fix x :: node and n :: node
  have "size_list (size_prod (\<lambda>_. 0) size) (properties n) < size n"
    by (cases n) simp
  then show "(Inr (x, properties n), Inl (x, n))
      \<in> measure (\<lambda>x. case x of Inl (t, n) \<Rightarrow> 2 * size n + 1
                               | Inr (t, cs) \<Rightarrow> 2 * size_list (size_prod (\<lambda>_. 0) size) cs)"
    by simp
qed auto

text \<open>
  For the proofs: a node \<open>x\<close> is reached clear from \<open>n\<close> when the walk of \<open>n\<close> comes
  to \<open>x\<close> and \<open>x\<close> lies outside every range that a node on the way deletes for its
  own type parameters and annotations.  In a tree that keeps the range contract
  this holds of every node, other than a parameter, that the walk comes to outside
  the types.
\<close>

function reachedClear :: "node \<Rightarrow> node \<Rightarrow> bool"
  and reachedClearIn :: "node \<Rightarrow> (property \<times> node) list \<Rightarrow> bool" where
  "reachedClear x n =
     (x = n \<or> (\<not> returnsEarly n \<and>
        list_all (\<lambda>a. outside a x) (variableEdits n @ functionEdits n) \<and>
        reachedClearIn x (properties n)))"
| "reachedClearIn x [] = False"
| "reachedClearIn x (rc # cs) = (reachedClear x (snd rc) \<or> reachedClearIn x cs)"
  by pat_completeness auto
termination
proof (relation "measure (\<lambda>x. case x of Inl (t, n) \<Rightarrow> 2 * size n + 1
                                      | Inr (t, cs) \<Rightarrow> 2 * size_list (size_prod (\<lambda>_. 0) size) cs)")
  fix x :: node and n :: node
  have "size_list (size_prod (\<lambda>_. 0) size) (properties n) < size n"
    by (cases n) simp
  then show "(Inr (x, properties n), Inl (x, n))
      \<in> measure (\<lambda>x. case x of Inl (t, n) \<Rightarrow> 2 * size n + 1
                               | Inr (t, cs) \<Rightarrow> 2 * size_list (size_prod (\<lambda>_. 0) size) cs)"
    by simp
qed auto

declare walk.simps [simp del] visited.simps [simp del] nodesOf.simps [simp del]
  reachedClear.simps [simp del] reachedOutsideTypes.simps [simp del]

section \<open>Inputs\<close>

text \<open>
  The trees the parser returns for some texts, written out: for every node its kind,
  \<^verbatim>\<open>pos\<close>, \<^verbatim>\<open>getStart()\<close>, \<^verbatim>\<open>end\<close>, the type-only flag, \<^verbatim>\<open>getChildren()\<close> where the
  walker may call it, and the children \<^verbatim>\<open>forEachChild\<close> visits.
\<close>

text \<open>Scenario 2 of the spec and the test of lines 172-188: \<^verbatim>\<open>const a: number = 123;\<close>\<close>

definition scenario2_text :: string where
  \<open>scenario2_text = ''const a: number = 123;''\<close>

definition scenario2_declarator :: node where
  "scenario2_declarator =
     Node VariableDeclaration 5 6 21 False
       [Child (OtherKind ''Identifier'') 5 7, Child ColonToken 7 8,
        Child (OtherKind ''NumberKeyword'') 8 15,
        Child (OtherKind ''EqualsToken'') 15 17,
        Child (OtherKind ''NumericLiteral'') 17 21]
        [(P_other, Node (OtherKind ''Identifier'') 5 6 7 False [] []),
         (P_type, Node (OtherKind ''NumberKeyword'') 8 9 15 False [] []),
         (P_other, Node (OtherKind ''NumericLiteral'') 17 18 21 False [] [])]"

definition scenario2_tree :: node where
  "scenario2_tree =
     Node SourceFile 0 0 22 False []
        [(P_other, Node (OtherKind ''VariableStatement'') 0 0 22 False []
           [(P_other, Node (OtherKind ''VariableDeclarationList'') 0 0 21 False []
              [(P_other, scenario2_declarator)])]),
         (P_other, Node EndOfFileToken 22 22 22 False [] [])]"

text \<open>Scenario 3 of the spec and the test of lines 190-201:
  \<^verbatim>\<open>function foo<T>(a: number): string { return String(a); }\<close>\<close>

definition scenario3_text :: string where
  \<open>scenario3_text = ''function foo<T>(a: number): string { return String(a); }''\<close>

definition scenario3_parameter :: node where
  "scenario3_parameter =
     Node Parameter 16 16 25 False
       [Child (OtherKind ''Identifier'') 16 17, Child ColonToken 17 18,
        Child (OtherKind ''NumberKeyword'') 18 25]
        [(P_other, Node (OtherKind ''Identifier'') 16 16 17 False [] []),
         (P_type, Node (OtherKind ''NumberKeyword'') 18 19 25 False [] [])]"

definition scenario3_function :: node where
  "scenario3_function =
     Node FunctionDeclaration 0 0 56 False
       [Child (OtherKind ''FunctionKeyword'') 0 8,
        Child (OtherKind ''Identifier'') 8 12, Child LessThanToken 12 13,
        Child (OtherKind ''SyntaxList'') 13 14, Child GreaterThanToken 14 15,
        Child (OtherKind ''OpenParenToken'') 15 16,
        Child (OtherKind ''SyntaxList'') 16 25,
        Child (OtherKind ''CloseParenToken'') 25 26, Child ColonToken 26 27,
        Child (OtherKind ''StringKeyword'') 27 34,
        Child (OtherKind ''Block'') 34 56]
        [(P_other, Node (OtherKind ''Identifier'') 8 9 12 False [] []),
         (P_typeParameters, Node TypeParameter 13 13 14 False []
           [(P_other, Node (OtherKind ''Identifier'') 13 13 14 False [] [])]),
         (P_parameters, scenario3_parameter),
         (P_type, Node (OtherKind ''StringKeyword'') 27 28 34 False [] []),
         (P_other, Node (OtherKind ''Block'') 34 35 56 False []
           [(P_other, Node (OtherKind ''ReturnStatement'') 36 37 54 False []
              [(P_expression, Node (OtherKind ''CallExpression'') 43 44 53 False []
                 [(P_expression, Node (OtherKind ''Identifier'') 43 44 50 False [] []),
                  (P_other, Node (OtherKind ''Identifier'') 51 51 52 False [] [])])])])]"

definition scenario3_tree :: node where
  "scenario3_tree =
     Node SourceFile 0 0 56 False []
        [(P_other, scenario3_function),
         (P_other, Node EndOfFileToken 56 56 56 False [] [])]"

text \<open>A declarator whose type literal has a computed property name holding an
  as-expression: \<^verbatim>\<open>let a:{[b as c]:d}\<close>\<close>

definition computed_text :: string where
  \<open>computed_text = ''let a:{[b as c]:d}''\<close>

definition computed_as :: node where
  "computed_as =
     Node AsExpression 8 8 14 False []
        [(P_expression, Node (OtherKind ''Identifier'') 8 8 9 False [] []),
         (P_type, Node (OtherKind ''TypeReference'') 12 13 14 False []
           [(P_other, Node (OtherKind ''Identifier'') 12 13 14 False [] [])])]"

definition computed_declarator :: node where
  "computed_declarator =
     Node VariableDeclaration 3 4 18 False
       [Child (OtherKind ''Identifier'') 3 5, Child ColonToken 5 6,
        Child (OtherKind ''TypeLiteral'') 6 18]
        [(P_other, Node (OtherKind ''Identifier'') 3 4 5 False [] []),
         (P_type, Node (OtherKind ''TypeLiteral'') 6 6 18 False []
           [(P_other, Node (OtherKind ''PropertySignature'') 7 7 17 False []
              [(P_other, Node (OtherKind ''ComputedPropertyName'') 7 7 15 False []
                 [(P_expression, computed_as)]),
               (P_type, Node (OtherKind ''TypeReference'') 16 16 17 False []
                 [(P_other, Node (OtherKind ''Identifier'') 16 16 17 False [] [])])])])]"

definition computed_tree :: node where
  "computed_tree =
     Node SourceFile 0 0 18 False []
        [(P_other, Node (OtherKind ''VariableStatement'') 0 0 18 False []
           [(P_other, Node (OtherKind ''VariableDeclarationList'') 0 0 18 False []
              [(P_other, computed_declarator)])]),
         (P_other, Node EndOfFileToken 18 18 18 False [] [])]"

text \<open>A type alias in the body of an arrow function that is the operand of an
  as-expression: \<^verbatim>\<open>(()=>{type A=B}) as C\<close>\<close>

definition aliasInCast_text :: string where
  \<open>aliasInCast_text = ''(()=>{type A=B}) as C''\<close>

definition aliasInCast_alias :: node where
  "aliasInCast_alias =
     Node TypeAliasDeclaration 6 6 14 False []
        [(P_other, Node (OtherKind ''Identifier'') 10 11 12 False [] []),
         (P_type, Node (OtherKind ''TypeReference'') 13 13 14 False []
           [(P_other, Node (OtherKind ''Identifier'') 13 13 14 False [] [])])]"

definition aliasInCast_as :: node where
  "aliasInCast_as =
     Node AsExpression 0 0 21 False []
        [(P_expression, Node (OtherKind ''ParenthesizedExpression'') 0 0 16 False []
           [(P_expression, Node ArrowFunction 1 1 15 False
             [Child (OtherKind ''OpenParenToken'') 1 2,
              Child (OtherKind ''SyntaxList'') 2 2,
              Child (OtherKind ''CloseParenToken'') 2 3,
              Child (OtherKind ''EqualsGreaterThanToken'') 3 5,
              Child (OtherKind ''Block'') 5 15]
              [(P_other, Node (OtherKind ''EqualsGreaterThanToken'') 3 3 5 False [] []),
               (P_other, Node (OtherKind ''Block'') 5 5 15 False []
                 [(P_other, aliasInCast_alias)])])]),
         (P_type, Node (OtherKind ''TypeReference'') 19 20 21 False []
           [(P_other, Node (OtherKind ''Identifier'') 19 20 21 False [] [])])]"

definition aliasInCast_tree :: node where
  "aliasInCast_tree =
     Node SourceFile 0 0 21 False []
        [(P_other, Node (OtherKind ''ExpressionStatement'') 0 0 21 False []
           [(P_expression, aliasInCast_as)]),
         (P_other, Node EndOfFileToken 21 21 21 False [] [])]"

text \<open>An import inside an ambient module declaration:
  \<^verbatim>\<open>declare module "m" { import { type A } from "x"; }\<close>\<close>

definition ambient_text :: string where
  \<open>ambient_text = ''declare module "m" { import { type A } from "x"; }''\<close>

definition ambient_namedImports :: node where
  "ambient_namedImports =
     Node NamedImports 27 28 38 False []
        [(P_elements, Node ImportSpecifier 29 30 36 True []
           [(P_other, Node (OtherKind ''Identifier'') 34 35 36 False [] [])])]"

definition ambient_import :: node where
  "ambient_import =
     Node ImportDeclaration 20 21 48 False []
        [(P_importClause, Node ImportClause 27 28 38 False []
           [(P_other, ambient_namedImports)]),
         (P_other, Node (OtherKind ''StringLiteral'') 43 44 47 False [] [])]"

definition ambient_module :: node where
  "ambient_module =
     Node ModuleDeclaration 0 0 50 False []
        [(P_other, Node (OtherKind ''DeclareKeyword'') 0 0 7 False [] []),
         (P_other, Node (OtherKind ''StringLiteral'') 14 15 18 False [] []),
         (P_other, Node (OtherKind ''ModuleBlock'') 18 19 50 False []
           [(P_other, ambient_import)])]"

definition ambient_tree :: node where
  "ambient_tree =
     Node SourceFile 0 0 50 False []
        [(P_other, ambient_module),
         (P_other, Node EndOfFileToken 50 50 50 False [] [])]"

text \<open>A generic method with an annotated parameter and a return type:
  \<^verbatim>\<open>class C{m<T>(a:T):T{return a}}\<close>\<close>

definition method_text :: string where
  \<open>method_text = ''class C{m<T>(a:T):T{return a}}''\<close>

definition method_parameter :: node where
  "method_parameter =
     Node Parameter 13 13 16 False
       [Child (OtherKind ''Identifier'') 13 14, Child ColonToken 14 15,
        Child (OtherKind ''TypeReference'') 15 16]
        [(P_other, Node (OtherKind ''Identifier'') 13 13 14 False [] []),
         (P_type, Node (OtherKind ''TypeReference'') 15 15 16 False []
           [(P_other, Node (OtherKind ''Identifier'') 15 15 16 False [] [])])]"

definition method_method :: node where
  "method_method =
     Node MethodDeclaration 8 8 29 False
       [Child (OtherKind ''Identifier'') 8 9, Child LessThanToken 9 10,
        Child (OtherKind ''SyntaxList'') 10 11, Child GreaterThanToken 11 12,
        Child (OtherKind ''OpenParenToken'') 12 13,
        Child (OtherKind ''SyntaxList'') 13 16,
        Child (OtherKind ''CloseParenToken'') 16 17, Child ColonToken 17 18,
        Child (OtherKind ''TypeReference'') 18 19,
        Child (OtherKind ''Block'') 19 29]
        [(P_other, Node (OtherKind ''Identifier'') 8 8 9 False [] []),
         (P_typeParameters, Node TypeParameter 10 10 11 False []
           [(P_other, Node (OtherKind ''Identifier'') 10 10 11 False [] [])]),
         (P_parameters, method_parameter),
         (P_type, Node (OtherKind ''TypeReference'') 18 18 19 False []
           [(P_other, Node (OtherKind ''Identifier'') 18 18 19 False [] [])]),
         (P_other, Node (OtherKind ''Block'') 19 19 29 False []
           [(P_other, Node (OtherKind ''ReturnStatement'') 20 20 28 False []
              [(P_expression, Node (OtherKind ''Identifier'') 26 27 28 False [] [])])])]"

definition method_tree :: node where
  "method_tree =
     Node SourceFile 0 0 30 False []
        [(P_other, Node (OtherKind ''ClassDeclaration'') 0 0 30 False []
           [(P_other, Node (OtherKind ''Identifier'') 5 6 7 False [] []),
            (P_other, method_method)]),
         (P_other, Node EndOfFileToken 30 30 30 False [] [])]"

text \<open>A double assertion: \<^verbatim>\<open>x as unknown as T\<close>\<close>

definition doubleCast_text :: string where
  \<open>doubleCast_text = ''x as unknown as T''\<close>

definition doubleCast_inner :: node where
  "doubleCast_inner =
     Node AsExpression 0 0 12 False []
        [(P_expression, Node (OtherKind ''Identifier'') 0 0 1 False [] []),
         (P_type, Node (OtherKind ''UnknownKeyword'') 4 5 12 False [] [])]"

definition doubleCast_outer :: node where
  "doubleCast_outer =
     Node AsExpression 0 0 17 False []
        [(P_expression, doubleCast_inner),
         (P_type, Node (OtherKind ''TypeReference'') 15 16 17 False []
           [(P_other, Node (OtherKind ''Identifier'') 15 16 17 False [] [])])]"

definition doubleCast_tree :: node where
  "doubleCast_tree =
     Node SourceFile 0 0 17 False []
        [(P_other, Node (OtherKind ''ExpressionStatement'') 0 0 17 False []
           [(P_expression, doubleCast_outer)]),
         (P_other, Node EndOfFileToken 17 17 17 False [] [])]"

text \<open>Markup with a namespaced attribute name inside a namespace:
  \<^verbatim>\<open>namespace N{<a b:c={d}/>}\<close>\<close>

definition markupInNamespace_text :: string where
  \<open>markupInNamespace_text = ''namespace N{<a b:c={d}/>}''\<close>

definition markupInNamespace_name :: node where
  "markupInNamespace_name =
     Node JsxNamespacedName 14 15 18 False
       [Child (OtherKind ''Identifier'') 14 16, Child ColonToken 16 17,
        Child (OtherKind ''Identifier'') 17 18]
        [(P_other, Node (OtherKind ''Identifier'') 14 15 16 False [] []),
         (P_other, Node (OtherKind ''Identifier'') 17 17 18 False [] [])]"

definition markupInNamespace_module :: node where
  "markupInNamespace_module =
     Node ModuleDeclaration 0 0 25 False []
        [(P_other, Node (OtherKind ''Identifier'') 9 10 11 False [] []),
         (P_other, Node (OtherKind ''ModuleBlock'') 11 11 25 False []
           [(P_other, Node (OtherKind ''ExpressionStatement'') 12 12 24 False []
              [(P_expression, Node (OtherKind ''JsxSelfClosingElement'') 12 12 24 False []
                 [(P_other, Node (OtherKind ''Identifier'') 13 13 14 False [] []),
                  (P_other, Node (OtherKind ''JsxAttributes'') 14 15 22 False []
                    [(P_other, Node JsxAttribute 14 15 22 False []
                       [(P_other, markupInNamespace_name),
                        (P_other, Node (OtherKind ''JsxExpression'') 19 19 22 False []
                          [(P_expression, Node (OtherKind ''Identifier'') 20 20 21 False [] [])])])])])])])]"

definition markupInNamespace_tree :: node where
  "markupInNamespace_tree =
     Node SourceFile 0 0 25 False []
        [(P_other, markupInNamespace_module),
         (P_other, Node EndOfFileToken 25 25 25 False [] [])]"

text \<open>A named-export list with one type-only and two value specifiers:
  \<^verbatim>\<open>export { type A, B, C };\<close>\<close>

definition mixedExport_text :: string where
  \<open>mixedExport_text = ''export { type A, B, C };''\<close>

definition mixedExport_namedExports :: node where
  "mixedExport_namedExports =
     Node NamedExports 6 7 23 False []
        [(P_elements, Node ExportSpecifier 8 9 15 True []
           [(P_other, Node (OtherKind ''Identifier'') 13 14 15 False [] [])]),
         (P_elements, Node ExportSpecifier 16 17 18 False []
           [(P_other, Node (OtherKind ''Identifier'') 16 17 18 False [] [])]),
         (P_elements, Node ExportSpecifier 19 20 21 False []
           [(P_other, Node (OtherKind ''Identifier'') 19 20 21 False [] [])])]"

definition mixedExport_tree :: node where
  "mixedExport_tree =
     Node SourceFile 0 0 24 False []
        [(P_other, Node ExportDeclaration 0 0 24 False []
           [(P_other, mixedExport_namedExports)]),
         (P_other, Node EndOfFileToken 24 24 24 False [] [])]"

text \<open>An import without type-only syntax, with a comment inside the braces:
  \<^verbatim>\<open>import { A /*c*/ } from "x"\<close>\<close>

definition plainImport_text :: string where
  \<open>plainImport_text = ''import { A /*c*/ } from "x"''\<close>

definition plainImport_namedImports :: node where
  "plainImport_namedImports =
     Node NamedImports 6 7 18 False []
        [(P_elements, Node ImportSpecifier 8 9 10 False []
           [(P_other, Node (OtherKind ''Identifier'') 8 9 10 False [] [])])]"

definition plainImport_tree :: node where
  "plainImport_tree =
     Node SourceFile 0 0 27 False []
        [(P_other, Node ImportDeclaration 0 0 27 False []
           [(P_importClause, Node ImportClause 6 7 18 False []
              [(P_other, plainImport_namedImports)]),
            (P_other, Node (OtherKind ''StringLiteral'') 23 24 27 False [] [])]),
         (P_other, Node EndOfFileToken 27 27 27 False [] [])]"

text \<open>The test of lines 135-142: \<^verbatim>\<open>import { type Foo, Bar } from "./foo";\<close>\<close>

definition mixedImport_text :: string where
  \<open>mixedImport_text = ''import { type Foo, Bar } from "./foo";''\<close>

definition mixedImport_namedImports :: node where
  "mixedImport_namedImports =
     Node NamedImports 6 7 24 False []
        [(P_elements, Node ImportSpecifier 8 9 17 True []
           [(P_other, Node (OtherKind ''Identifier'') 13 14 17 False [] [])]),
         (P_elements, Node ImportSpecifier 18 19 22 False []
           [(P_other, Node (OtherKind ''Identifier'') 18 19 22 False [] [])])]"

definition mixedImport_import :: node where
  "mixedImport_import =
     Node ImportDeclaration 0 0 38 False []
        [(P_importClause, Node ImportClause 6 7 24 False []
           [(P_other, mixedImport_namedImports)]),
         (P_other, Node (OtherKind ''StringLiteral'') 29 30 37 False [] [])]"

definition mixedImport_tree :: node where
  "mixedImport_tree =
     Node SourceFile 0 0 38 False []
        [(P_other, mixedImport_import),
         (P_other, Node EndOfFileToken 38 38 38 False [] [])]"

text \<open>The import of sample 1 (line 223): \<^verbatim>\<open>import { type Component } from "solid-js";\<close>\<close>

definition typeOnlyList_text :: string where
  \<open>typeOnlyList_text = ''import { type Component } from "solid-js";''\<close>

definition typeOnlyList_namedImports :: node where
  "typeOnlyList_namedImports =
     Node NamedImports 6 7 25 False []
        [(P_elements, Node ImportSpecifier 8 9 23 True []
           [(P_other, Node (OtherKind ''Identifier'') 13 14 23 False [] [])])]"

definition typeOnlyList_import :: node where
  "typeOnlyList_import =
     Node ImportDeclaration 0 0 42 False []
        [(P_importClause, Node ImportClause 6 7 25 False []
           [(P_other, typeOnlyList_namedImports)]),
         (P_other, Node (OtherKind ''StringLiteral'') 30 31 41 False [] [])]"

definition typeOnlyList_tree :: node where
  "typeOnlyList_tree =
     Node SourceFile 0 0 42 False []
        [(P_other, typeOnlyList_import),
         (P_other, Node EndOfFileToken 42 42 42 False [] [])]"

text \<open>The test of lines 212-218: \<^verbatim>\<open><div on:click={() => {}}></div>\<close>\<close>

definition markup_text :: string where
  \<open>markup_text = ''<div on:click={() => {}}></div>''\<close>

definition markup_name :: node where
  "markup_name =
     Node JsxNamespacedName 4 5 13 False
       [Child (OtherKind ''Identifier'') 4 7, Child ColonToken 7 8,
        Child (OtherKind ''Identifier'') 8 13]
        [(P_other, Node (OtherKind ''Identifier'') 4 5 7 False [] []),
         (P_other, Node (OtherKind ''Identifier'') 8 8 13 False [] [])]"

definition markup_tree :: node where
  "markup_tree =
     Node SourceFile 0 0 31 False []
        [(P_other, Node (OtherKind ''ExpressionStatement'') 0 0 31 False []
           [(P_expression, Node (OtherKind ''JsxElement'') 0 0 31 False []
              [(P_other, Node (OtherKind ''JsxOpeningElement'') 0 0 25 False []
                 [(P_other, Node (OtherKind ''Identifier'') 1 1 4 False [] []),
                  (P_other, Node (OtherKind ''JsxAttributes'') 4 5 24 False []
                    [(P_other, Node JsxAttribute 4 5 24 False []
                       [(P_other, markup_name),
                        (P_other, Node (OtherKind ''JsxExpression'') 14 14 24 False []
                          [(P_expression, Node ArrowFunction 15 15 23 False
                            [Child (OtherKind ''OpenParenToken'') 15 16,
                             Child (OtherKind ''SyntaxList'') 16 16,
                             Child (OtherKind ''CloseParenToken'') 16 17,
                             Child (OtherKind ''EqualsGreaterThanToken'') 17 20,
                             Child (OtherKind ''Block'') 20 23]
                             [(P_other, Node (OtherKind ''EqualsGreaterThanToken'') 17 18 20 False [] []),
                              (P_other, Node (OtherKind ''Block'') 20 21 23 False [] [])])])])])]),
               (P_other, Node (OtherKind ''JsxClosingElement'') 25 25 31 False []
                 [(P_other, Node (OtherKind ''Identifier'') 27 27 30 False [] [])])])]),
         (P_other, Node EndOfFileToken 31 31 31 False [] [])]"

text \<open>A type alias with a comment before it: \<^verbatim>\<open>let x;/*c*/ type A = B;\<close>\<close>

definition commented_text :: string where
  \<open>commented_text = ''let x;/*c*/ type A = B;''\<close>

definition commented_alias :: node where
  "commented_alias =
     Node TypeAliasDeclaration 6 12 23 False []
        [(P_other, Node (OtherKind ''Identifier'') 16 17 18 False [] []),
         (P_type, Node (OtherKind ''TypeReference'') 20 21 22 False []
           [(P_other, Node (OtherKind ''Identifier'') 20 21 22 False [] [])])]"

definition commented_tree :: node where
  "commented_tree =
     Node SourceFile 0 0 23 False []
        [(P_other, Node (OtherKind ''VariableStatement'') 0 0 6 False []
           [(P_other, Node (OtherKind ''VariableDeclarationList'') 0 0 5 False []
              [(P_other, Node VariableDeclaration 3 4 5 False [Child (OtherKind ''Identifier'') 3 5]
                 [(P_other, Node (OtherKind ''Identifier'') 3 4 5 False [] [])])])]),
         (P_other, commented_alias),
         (P_other, Node EndOfFileToken 23 23 23 False [] [])]"

text \<open>Scenario 4 of the spec and the test of lines 203-210: \<^verbatim>\<open>const b = "123" as number;\<close>\<close>

definition scenario4_text :: string where
  \<open>scenario4_text = ''const b = "123" as number;''\<close>

definition scenario4_as :: node where
  "scenario4_as =
     Node AsExpression 9 10 25 False []
        [(P_expression, Node (OtherKind ''StringLiteral'') 9 10 15 False [] []),
         (P_type, Node (OtherKind ''NumberKeyword'') 18 19 25 False [] [])]"

definition scenario4_tree :: node where
  "scenario4_tree =
     Node SourceFile 0 0 26 False []
        [(P_other, Node (OtherKind ''VariableStatement'') 0 0 26 False []
           [(P_other, Node (OtherKind ''VariableDeclarationList'') 0 0 25 False []
              [(P_other, Node VariableDeclaration 5 6 25 False
                [Child (OtherKind ''Identifier'') 5 7,
                 Child (OtherKind ''EqualsToken'') 7 9, Child AsExpression 9 25]
                 [(P_other, Node (OtherKind ''Identifier'') 5 6 7 False [] []),
                  (P_other, scenario4_as)])])]),
         (P_other, Node EndOfFileToken 26 26 26 False [] [])]"

text \<open>An arrow function with an annotated parameter that is the operand of an
  as-expression: \<^verbatim>\<open>((a:B)=>a) as C\<close>\<close>

definition arrowInCast_text :: string where
  \<open>arrowInCast_text = ''((a:B)=>a) as C''\<close>

definition arrowInCast_parameter :: node where
  "arrowInCast_parameter =
     Node Parameter 2 2 5 False
       [Child (OtherKind ''Identifier'') 2 3, Child ColonToken 3 4,
        Child (OtherKind ''TypeReference'') 4 5]
        [(P_other, Node (OtherKind ''Identifier'') 2 2 3 False [] []),
         (P_type, Node (OtherKind ''TypeReference'') 4 4 5 False []
           [(P_other, Node (OtherKind ''Identifier'') 4 4 5 False [] [])])]"

definition arrowInCast_arrow :: node where
  "arrowInCast_arrow =
     Node ArrowFunction 1 1 9 False
       [Child (OtherKind ''OpenParenToken'') 1 2,
        Child (OtherKind ''SyntaxList'') 2 5,
        Child (OtherKind ''CloseParenToken'') 5 6,
        Child (OtherKind ''EqualsGreaterThanToken'') 6 8,
        Child (OtherKind ''Identifier'') 8 9]
        [(P_parameters, arrowInCast_parameter),
         (P_other, Node (OtherKind ''EqualsGreaterThanToken'') 6 6 8 False [] []),
         (P_other, Node (OtherKind ''Identifier'') 8 8 9 False [] [])]"

definition arrowInCast_tree :: node where
  "arrowInCast_tree =
     Node SourceFile 0 0 15 False []
        [(P_other, Node (OtherKind ''ExpressionStatement'') 0 0 15 False []
           [(P_expression, Node AsExpression 0 0 15 False []
              [(P_expression, Node (OtherKind ''ParenthesizedExpression'') 0 0 10 False []
                 [(P_expression, arrowInCast_arrow)]),
               (P_type, Node (OtherKind ''TypeReference'') 13 14 15 False []
                 [(P_other, Node (OtherKind ''Identifier'') 13 14 15 False [] [])])])]),
         (P_other, Node EndOfFileToken 15 15 15 False [] [])]"

text \<open>Markup with a namespaced attribute name between two annotations:
  \<^verbatim>\<open>const v: V = <div on:click={(e: E) => e}></div>;\<close>\<close>

definition typedMarkup_text :: string where
  \<open>typedMarkup_text = ''const v: V = <div on:click={(e: E) => e}></div>;''\<close>

definition typedMarkup_name :: node where
  "typedMarkup_name =
     Node JsxNamespacedName 17 18 26 False
       [Child (OtherKind ''Identifier'') 17 20, Child ColonToken 20 21,
        Child (OtherKind ''Identifier'') 21 26]
        [(P_other, Node (OtherKind ''Identifier'') 17 18 20 False [] []),
         (P_other, Node (OtherKind ''Identifier'') 21 21 26 False [] [])]"

definition typedMarkup_parameter :: node where
  "typedMarkup_parameter =
     Node Parameter 29 29 33 False
       [Child (OtherKind ''Identifier'') 29 30, Child ColonToken 30 31,
        Child (OtherKind ''TypeReference'') 31 33]
        [(P_other, Node (OtherKind ''Identifier'') 29 29 30 False [] []),
         (P_type, Node (OtherKind ''TypeReference'') 31 32 33 False []
           [(P_other, Node (OtherKind ''Identifier'') 31 32 33 False [] [])])]"

definition typedMarkup_arrow :: node where
  "typedMarkup_arrow =
     Node ArrowFunction 28 28 39 False
       [Child (OtherKind ''OpenParenToken'') 28 29,
        Child (OtherKind ''SyntaxList'') 29 33,
        Child (OtherKind ''CloseParenToken'') 33 34,
        Child (OtherKind ''EqualsGreaterThanToken'') 34 37,
        Child (OtherKind ''Identifier'') 37 39]
        [(P_parameters, typedMarkup_parameter),
         (P_other, Node (OtherKind ''EqualsGreaterThanToken'') 34 35 37 False [] []),
         (P_other, Node (OtherKind ''Identifier'') 37 38 39 False [] [])]"

definition typedMarkup_declarator :: node where
  "typedMarkup_declarator =
     Node VariableDeclaration 5 6 47 False
       [Child (OtherKind ''Identifier'') 5 7, Child ColonToken 7 8,
        Child (OtherKind ''TypeReference'') 8 10,
        Child (OtherKind ''EqualsToken'') 10 12,
        Child (OtherKind ''JsxElement'') 12 47]
        [(P_other, Node (OtherKind ''Identifier'') 5 6 7 False [] []),
         (P_type, Node (OtherKind ''TypeReference'') 8 9 10 False []
           [(P_other, Node (OtherKind ''Identifier'') 8 9 10 False [] [])]),
         (P_other, Node (OtherKind ''JsxElement'') 12 13 47 False []
           [(P_other, Node (OtherKind ''JsxOpeningElement'') 12 13 41 False []
              [(P_other, Node (OtherKind ''Identifier'') 14 14 17 False [] []),
               (P_other, Node (OtherKind ''JsxAttributes'') 17 18 40 False []
                 [(P_other, Node JsxAttribute 17 18 40 False []
                    [(P_other, typedMarkup_name),
                     (P_other, Node (OtherKind ''JsxExpression'') 27 27 40 False []
                       [(P_expression, typedMarkup_arrow)])])])]),
            (P_other, Node (OtherKind ''JsxClosingElement'') 41 41 47 False []
              [(P_other, Node (OtherKind ''Identifier'') 43 43 46 False [] [])])])]"

definition typedMarkup_tree :: node where
  "typedMarkup_tree =
     Node SourceFile 0 0 48 False []
        [(P_other, Node (OtherKind ''VariableStatement'') 0 0 48 False []
           [(P_other, Node (OtherKind ''VariableDeclarationList'') 0 0 47 False []
              [(P_other, typedMarkup_declarator)])]),
         (P_other, Node EndOfFileToken 48 48 48 False [] [])]"

text \<open>An annotated declarator inside a namespace: \<^verbatim>\<open>namespace N{let a:B=1}\<close>\<close>

definition letInNamespace_text :: string where
  \<open>letInNamespace_text = ''namespace N{let a:B=1}''\<close>

definition letInNamespace_declarator :: node where
  "letInNamespace_declarator =
     Node VariableDeclaration 15 16 21 False
       [Child (OtherKind ''Identifier'') 15 17, Child ColonToken 17 18,
        Child (OtherKind ''TypeReference'') 18 19,
        Child (OtherKind ''EqualsToken'') 19 20,
        Child (OtherKind ''NumericLiteral'') 20 21]
        [(P_other, Node (OtherKind ''Identifier'') 15 16 17 False [] []),
         (P_type, Node (OtherKind ''TypeReference'') 18 18 19 False []
           [(P_other, Node (OtherKind ''Identifier'') 18 18 19 False [] [])]),
         (P_other, Node (OtherKind ''NumericLiteral'') 20 20 21 False [] [])]"

definition letInNamespace_module :: node where
  "letInNamespace_module =
     Node ModuleDeclaration 0 0 22 False []
        [(P_other, Node (OtherKind ''Identifier'') 9 10 11 False [] []),
         (P_other, Node (OtherKind ''ModuleBlock'') 11 11 22 False []
           [(P_other, Node (OtherKind ''VariableStatement'') 12 12 21 False []
              [(P_other, Node (OtherKind ''VariableDeclarationList'') 12 12 21 False []
                 [(P_other, letInNamespace_declarator)])])])]"

definition letInNamespace_tree :: node where
  "letInNamespace_tree =
     Node SourceFile 0 0 22 False []
        [(P_other, letInNamespace_module),
         (P_other, Node EndOfFileToken 22 22 22 False [] [])]"

text \<open>An as-expression that follows a keyword: \<^verbatim>\<open>function foo(a) { return a as T; }\<close>\<close>

definition returnCast_text :: string where
  \<open>returnCast_text = ''function foo(a) { return a as T; }''\<close>

definition returnCast_as :: node where
  "returnCast_as =
     Node AsExpression 24 25 31 False []
        [(P_expression, Node (OtherKind ''Identifier'') 24 25 26 False [] []),
         (P_type, Node (OtherKind ''TypeReference'') 29 30 31 False []
           [(P_other, Node (OtherKind ''Identifier'') 29 30 31 False [] [])])]"

definition returnCast_function :: node where
  "returnCast_function =
     Node FunctionDeclaration 0 0 34 False
       [Child (OtherKind ''FunctionKeyword'') 0 8,
        Child (OtherKind ''Identifier'') 8 12,
        Child (OtherKind ''OpenParenToken'') 12 13,
        Child (OtherKind ''SyntaxList'') 13 14,
        Child (OtherKind ''CloseParenToken'') 14 15,
        Child (OtherKind ''Block'') 15 34]
        [(P_other, Node (OtherKind ''Identifier'') 8 9 12 False [] []),
         (P_parameters, Node Parameter 13 13 14 False [Child (OtherKind ''Identifier'') 13 14]
           [(P_other, Node (OtherKind ''Identifier'') 13 13 14 False [] [])]),
         (P_other, Node (OtherKind ''Block'') 15 16 34 False []
           [(P_other, Node (OtherKind ''ReturnStatement'') 17 18 32 False []
              [(P_expression, returnCast_as)])])]"

definition returnCast_tree :: node where
  "returnCast_tree =
     Node SourceFile 0 0 34 False []
        [(P_other, returnCast_function),
         (P_other, Node EndOfFileToken 34 34 34 False [] [])]"

text \<open>A namespaced attribute name in a computed property name of a type literal:
  \<^verbatim>\<open>let a:{[<b c:d/>]:e}\<close>\<close>

definition nameInType_text :: string where
  \<open>nameInType_text = ''let a:{[<b c:d/>]:e}''\<close>

definition nameInType_name :: node where
  "nameInType_name =
     Node JsxNamespacedName 10 11 14 False
       [Child (OtherKind ''Identifier'') 10 12, Child ColonToken 12 13,
        Child (OtherKind ''Identifier'') 13 14]
        [(P_other, Node (OtherKind ''Identifier'') 10 11 12 False [] []),
         (P_other, Node (OtherKind ''Identifier'') 13 13 14 False [] [])]"

definition nameInType_declarator :: node where
  "nameInType_declarator =
     Node VariableDeclaration 3 4 20 False
       [Child (OtherKind ''Identifier'') 3 5, Child ColonToken 5 6,
        Child (OtherKind ''TypeLiteral'') 6 20]
        [(P_other, Node (OtherKind ''Identifier'') 3 4 5 False [] []),
         (P_type, Node (OtherKind ''TypeLiteral'') 6 6 20 False []
           [(P_other, Node (OtherKind ''PropertySignature'') 7 7 19 False []
              [(P_other, Node (OtherKind ''ComputedPropertyName'') 7 7 17 False []
                 [(P_expression, Node (OtherKind ''JsxSelfClosingElement'') 8 8 16 False []
                    [(P_other, Node (OtherKind ''Identifier'') 9 9 10 False [] []),
                     (P_other, Node (OtherKind ''JsxAttributes'') 10 11 14 False []
                       [(P_other, Node JsxAttribute 10 11 14 False []
                          [(P_other, nameInType_name)])])])]),
               (P_type, Node (OtherKind ''TypeReference'') 18 18 19 False []
                 [(P_other, Node (OtherKind ''Identifier'') 18 18 19 False [] [])])])])]"

definition nameInType_tree :: node where
  "nameInType_tree =
     Node SourceFile 0 0 20 False []
        [(P_other, Node (OtherKind ''VariableStatement'') 0 0 20 False []
           [(P_other, Node (OtherKind ''VariableDeclarationList'') 0 0 20 False []
              [(P_other, nameInType_declarator)])]),
         (P_other, Node EndOfFileToken 20 20 20 False [] [])]"

section \<open>Properties of the walker\<close>

lemmas kind_defs = isImportDeclaration_def isNamedImports_def isExportDeclaration_def
  isNamedExports_def isAsExpression_def isTypeAliasDeclaration_def isInterfaceDeclaration_def
  isEnumDeclaration_def isModuleDeclaration_def isVariableDeclaration_def
  isFunctionDeclaration_def isFunctionExpression_def isArrowFunction_def

lemma wholeRange_None: "wholeRange src n = None \<longleftrightarrow> \<not> returnsEarly n"
  by (auto simp: wholeRange_def returnsEarly_def wholeDeclaration_def typeOnlyClause_def
      split: option.splits)

lemma wholeRange_declaration:
  "wholeDeclaration n \<Longrightarrow> wholeRange src n = Some (Inr (pos n, getEnd n, ''''))"
  by (auto simp: wholeRange_def wholeDeclaration_def typeOnlyClause_def kind_defs)

lemma wholeRange_namedImports:
  "isNamedImports n \<Longrightarrow> wholeRange src n =
     Some (Inr (pos n, getEnd n, ''{'' @ join '','' (map (getText src) (valueSpecifiers n)) @ ''}''))"
  by (auto simp: wholeRange_def kind_defs)

lemma wholeRange_namedExports:
  "isNamedExports n \<Longrightarrow> wholeRange src n =
     Some (Inr (pos n, getEnd n, ''{'' @ join '', '' (map (getText src) (valueSpecifiers n)) @ ''}''))"
  by (auto simp: wholeRange_def kind_defs)

lemma wholeRange_asExpression:
  "isAsExpression n \<Longrightarrow> expression n = Some e \<Longrightarrow>
     wholeRange src n = Some (Inr (pos n, getEnd n, getText src e))"
  by (auto simp: wholeRange_def kind_defs)

lemma wholeRange_range:
  "wholeRange src n = Some (Inr ed) \<Longrightarrow> fst ed = pos n \<and> fst (snd ed) = getEnd n"
  by (auto simp: wholeRange_def split: if_splits option.splits)

lemma walk_passes:
  "\<not> returnsEarly n \<Longrightarrow> walk src n =
     (case walkChildren src (properties n) of
        Inl e \<Rightarrow> Inl e
      | Inr es \<Rightarrow> Inr (variableEdits n @ functionEdits n @ es))"
  using wholeRange_None [of src n] by (simp add: walk.simps)

lemma walk_returns:
  "wholeRange src n = Some (Inr e) \<Longrightarrow> walk src n = Inr [e]"
  by (simp add: walk.simps)

lemma returning_walk:
  assumes "returnsEarly n" and "walk src n = Inr es"
  shows "\<exists>r. es = [(pos n, getEnd n, r)]"
proof -
  from assms(1) obtain x where x: "wholeRange src n = Some x"
    using wholeRange_None [of src n] by (cases "wholeRange src n") auto
  with assms(2) obtain ed where "x = Inr ed" and es: "es = [ed]"
    by (cases x) (auto simp: walk.simps)
  with x have "fst ed = pos n \<and> fst (snd ed) = getEnd n" by (simp add: wholeRange_range)
  then have "ed = (pos n, getEnd n, snd (snd ed))" by (cases ed) auto
  with es show ?thesis by blast
qed

lemma annotation_kinds:
  "\<not> isVariableDeclaration n \<Longrightarrow> variableEdits n = []"
  "\<not> (isFunctionDeclaration n \<or> isFunctionExpression n \<or> isArrowFunction n) \<Longrightarrow> functionEdits n = []"
  by (simp_all add: variableEdits_def functionEdits_def)

lemma colonToTypeEnd_found:
  "type n = Some t \<Longrightarrow> findChild ColonToken n = Some c \<Longrightarrow>
   colonToTypeEnd n = [(cpos c, getEnd t, '''')]"
  by (simp add: colonToTypeEnd_def)

lemma colonToTypeEnd_iff: "e \<in> set (colonToTypeEnd n) \<longleftrightarrow> colonOfTypedNode n e"
  by (auto simp: colonToTypeEnd_def colonOfTypedNode_def split: option.splits)

lemma import_passes:
  assumes "isImportDeclaration d" and "\<not> typeOnlyClause d"
  shows "walk src d = walkChildren src (properties d)"
proof -
  from assms have "\<not> returnsEarly d"
    by (auto simp: returnsEarly_def wholeDeclaration_def kind_defs)
  moreover from assms(1) have "variableEdits d = []" "functionEdits d = []"
    by (simp_all add: annotation_kinds kind_defs)
  ultimately show ?thesis by (simp add: walk_passes split: sum.splits)
qed

lemma visited_returnsEarly: "returnsEarly n \<Longrightarrow> visited n = [n]"
  by (simp add: visited.simps)

lemma visited_walk:
  "(m \<in> set (visited n) \<longrightarrow> (\<forall>es. walk src n = Inr es \<longrightarrow>
       (\<exists>es'. walk src m = Inr es' \<and> set es' \<subseteq> set es)))"
  "(m \<in> set (visitedChildren cs) \<longrightarrow> (\<forall>es. walkChildren src cs = Inr es \<longrightarrow>
       (\<exists>es'. walk src m = Inr es' \<and> set es' \<subseteq> set es)))"
proof (induction n and cs rule: visited_visitedChildren.induct)
  case (1 n)
  show ?case
  proof (cases "returnsEarly n")
    case True
    then show ?thesis by (auto simp: visited.simps)
  next
    case False
    show ?thesis
    proof (intro impI allI)
      fix es assume m: "m \<in> set (visited n)" and w: "walk src n = Inr es"
      show "\<exists>es'. walk src m = Inr es' \<and> set es' \<subseteq> set es"
      proof (cases "m = n")
        case True
        with w show ?thesis by blast
      next
        case neq: False
        with m False have mc: "m \<in> set (visitedChildren (properties n))" by (simp add: visited.simps)
        from w False obtain ds where ds: "walkChildren src (properties n) = Inr ds"
          and es: "es = variableEdits n @ functionEdits n @ ds"
          by (auto simp: walk_passes split: sum.splits)
        from 1 [OF False] mc ds obtain es' where "walk src m = Inr es'" "set es' \<subseteq> set ds"
          by blast
        with es show ?thesis by auto
      qed
    qed
  qed
next
  case 2
  show ?case by simp
next
  case (3 rc cs)
  show ?case
  proof (intro impI allI)
    fix es assume m: "m \<in> set (visitedChildren (rc # cs))" and w: "walkChildren src (rc # cs) = Inr es"
    from w obtain a b where a: "walk src (snd rc) = Inr a" and b: "walkChildren src cs = Inr b"
      and es: "es = a @ b"
      by (auto split: sum.splits)
    from m have "m \<in> set (visited (snd rc)) \<or> m \<in> set (visitedChildren cs)" by simp
    then show "\<exists>es'. walk src m = Inr es' \<and> set es' \<subseteq> set es"
    proof
      assume "m \<in> set (visited (snd rc))"
      with 3(1) a obtain es' where "walk src m = Inr es'" "set es' \<subseteq> set a" by blast
      with es show ?thesis by auto
    next
      assume "m \<in> set (visitedChildren cs)"
      with 3(2) b obtain es' where "walk src m = Inr es'" "set es' \<subseteq> set b" by blast
      with es show ?thesis by auto
    qed
  qed
qed

lemma visited_edits:
  assumes "m \<in> set (visited root)" and "walk src root = Inr es" and "walk src m = Inr es'"
  shows "set es' \<subseteq> set es"
  using visited_walk(1) [of m root src] assms by auto

lemma visited_result:
  assumes "m \<in> set (visited root)" and "walk src root = Inr es"
  shows "\<exists>es'. walk src m = Inr es'"
  using visited_walk(1) [of m root src] assms by auto

lemma visited_own_edits:
  assumes "m \<in> set (visited root)" and "walk src root = Inr es" and "\<not> returnsEarly m"
  shows "set (variableEdits m @ functionEdits m) \<subseteq> set es"
proof -
  from visited_result [OF assms(1,2)] obtain es' where es': "walk src m = Inr es'" by blast
  with assms(3) have "set (variableEdits m @ functionEdits m) \<subseteq> set es'"
    by (auto simp: walk_passes split: sum.splits)
  with visited_edits [OF assms(1,2) es'] show ?thesis by blast
qed

lemma visited_subset_nodesOf:
  "set (visited n) \<subseteq> set (nodesOf n)"
  "set (visitedChildren cs) \<subseteq> set (nodesOfChildren cs)"
proof (induction n and cs rule: nodesOf_nodesOfChildren.induct)
  case (1 n)
  then show ?case by (auto simp: visited.simps nodesOf.simps)
next
  case 2
  show ?case by simp
next
  case (3 rc cs)
  then show ?case by auto
qed

lemma walkChildren_member:
  "walkChildren src cs = Inr ds \<Longrightarrow> d \<in> set ds \<Longrightarrow>
   \<exists>c \<in> set (map snd cs). \<exists>es. walk src c = Inr es \<and> d \<in> set es"
proof (induction cs arbitrary: ds)
  case Nil
  then show ?case by simp
next
  case (Cons rc cs)
  from Cons.prems(1) obtain a b where a: "walk src (snd rc) = Inr a"
    and b: "walkChildren src cs = Inr b" and ds: "ds = a @ b"
    by (auto split: sum.splits)
  from Cons.prems(2) ds have "d \<in> set a \<or> d \<in> set b" by simp
  then show ?case
  proof
    assume "d \<in> set a"
    with a show ?thesis by auto
  next
    assume "d \<in> set b"
    from Cons.IH [OF b this] show ?thesis by auto
  qed
qed

section \<open>The edits of a walk, node by node\<close>

text \<open>
  A walk that does not throw queues the own edits of the nodes it visits, in the
  order of the visit.
\<close>

lemma walk_concat:
  "walk src n = Inr es \<longrightarrow> es = concat (map (ownEdits src) (visited n))"
  "walkChildren src cs = Inr es \<longrightarrow> es = concat (map (ownEdits src) (visitedChildren cs))"
proof (induction src n and src cs arbitrary: es and es rule: walk_walkChildren.induct)
  case (1 src n)
  show ?case
  proof (cases "returnsEarly n")
    case True
    then obtain x where x: "wholeRange src n = Some x"
      using wholeRange_None [of src n] by (cases "wholeRange src n") auto
    with True show ?thesis
      by (cases x) (auto simp: walk.simps visited.simps ownEdits_def)
  next
    case False
    then have none: "wholeRange src n = None" by (simp add: wholeRange_None)
    show ?thesis
    proof
      assume w: "walk src n = Inr es"
      with False obtain ds where ds: "walkChildren src (properties n) = Inr ds"
        and es: "es = variableEdits n @ functionEdits n @ ds"
        by (auto simp: walk_passes split: sum.splits)
      from 1 [OF none] ds have "ds = concat (map (ownEdits src) (visitedChildren (properties n)))"
        by blast
      with es False none show "es = concat (map (ownEdits src) (visited n))"
        by (simp add: visited.simps ownEdits_def)
    qed
  qed
next
  case (2 src)
  show ?case by simp
next
  case (3 src rc cs)
  show ?case
  proof
    assume w: "walkChildren src (rc # cs) = Inr es"
    then obtain a b where a: "walk src (snd rc) = Inr a" and b: "walkChildren src cs = Inr b"
      and es: "es = a @ b"
      by (auto split: sum.splits)
    from 3(1) a have "a = concat (map (ownEdits src) (visited (snd rc)))" by blast
    moreover from 3(2) [OF a] b have "b = concat (map (ownEdits src) (visitedChildren cs))" by blast
    ultimately show "es = concat (map (ownEdits src) (visitedChildren (rc # cs)))"
      using es by simp
  qed
qed

lemma ownEdits_unrecognized: "\<not> recognized n \<Longrightarrow> ownEdits src n = []"
  by (simp add: recognized_def ownEdits_def wholeRange_None [THEN iffD2])

lemma returnsEarly_not_markup:
  "returnsEarly n \<Longrightarrow> kind n \<noteq> JsxAttribute \<and> kind n \<noteq> JsxNamespacedName"
  by (auto simp: returnsEarly_def wholeDeclaration_def kind_defs)

lemma variableEdits_cases:
  "e \<in> set (variableEdits n) \<Longrightarrow> kind n = VariableDeclaration \<and> colonOfTypedNode n e"
  by (auto simp: variableEdits_def colonToTypeEnd_iff kind_defs split: if_splits)

lemma functionEdits_cases:
  assumes "e \<in> set (functionEdits n)"
  shows "(kind n = FunctionDeclaration \<or> kind n = FunctionExpression \<or> kind n = ArrowFunction) \<and>
         (e \<in> set (typeParameterList n) \<or> colonOfTypedNode n e \<or>
          (\<exists>p \<in> set (parameters n). colonOfTypedNode p e))"
proof -
  from assms have k: "kind n = FunctionDeclaration \<or> kind n = FunctionExpression \<or> kind n = ArrowFunction"
    by (auto simp: functionEdits_def kind_defs split: if_splits)
  then have "functionEdits n =
      typeParameterList n @ colonToTypeEnd n @ concat (map colonToTypeEnd (parameters n))"
    by (auto simp: functionEdits_def kind_defs)
  with assms have "e \<in> set (typeParameterList n) \<or> e \<in> set (colonToTypeEnd n) \<or>
      (\<exists>p \<in> set (parameters n). e \<in> set (colonToTypeEnd p))"
    by auto
  with k show ?thesis by (simp add: colonToTypeEnd_iff)
qed

lemma ownEdits_origin:
  assumes "e \<in> set (ownEdits src m)"
  shows "kind m \<noteq> JsxAttribute \<and> kind m \<noteq> JsxNamespacedName \<and>
         (returnsEarly m \<and> fst e = pos m \<and> fst (snd e) = getEnd m
          \<or> kind m = VariableDeclaration \<and> colonOfTypedNode m e
          \<or> (kind m = FunctionDeclaration \<or> kind m = FunctionExpression \<or> kind m = ArrowFunction) \<and>
            (e \<in> set (typeParameterList m) \<or> colonOfTypedNode m e \<or>
             (\<exists>p \<in> set (parameters m). colonOfTypedNode p e)))"
proof (cases "wholeRange src m")
  case None
  with assms have "e \<in> set (variableEdits m) \<or> e \<in> set (functionEdits m)"
    by (simp add: ownEdits_def)
  then show ?thesis
  proof
    assume "e \<in> set (variableEdits m)"
    from variableEdits_cases [OF this] show ?thesis by simp
  next
    assume "e \<in> set (functionEdits m)"
    from functionEdits_cases [OF this] show ?thesis by auto
  qed
next
  case (Some x)
  then have r: "returnsEarly m" using wholeRange_None [of src m] by simp
  from Some assms obtain ed where x: "x = Inr ed" and e: "e = ed"
    by (cases x) (simp_all add: ownEdits_def)
  from Some x e have "fst e = pos m \<and> fst (snd e) = getEnd m" by (simp add: wholeRange_range)
  with r returnsEarly_not_markup [OF r] show ?thesis by simp
qed

section \<open>When the walk throws\<close>

text \<open>The walk throws only at an as-expression that has no operand.\<close>

lemma walk_total:
  "(\<forall>m \<in> set (nodesOf n). wholeRange src m \<noteq> Some (Inl TypeError)) \<longrightarrow> (\<exists>es. walk src n = Inr es)"
  "(\<forall>m \<in> set (nodesOfChildren cs). wholeRange src m \<noteq> Some (Inl TypeError)) \<longrightarrow>
     (\<exists>es. walkChildren src cs = Inr es)"
proof (induction src n and src cs rule: walk_walkChildren.induct)
  case (1 src n)
  show ?case
  proof
    assume ok: "\<forall>m \<in> set (nodesOf n). wholeRange src m \<noteq> Some (Inl TypeError)"
    then have self: "wholeRange src n \<noteq> Some (Inl TypeError)" by (simp add: nodesOf.simps)
    show "\<exists>es. walk src n = Inr es"
    proof (cases "wholeRange src n")
      case None
      from ok have "\<forall>m \<in> set (nodesOfChildren (properties n)). wholeRange src m \<noteq> Some (Inl TypeError)"
        by (simp add: nodesOf.simps)
      with 1 [OF None] obtain ds where "walkChildren src (properties n) = Inr ds" by blast
      with None show ?thesis by (simp add: walk.simps)
    next
      case (Some x)
      with self show ?thesis by (cases x) (auto simp: walk.simps, metis error.exhaust)
    qed
  qed
next
  case (2 src)
  show ?case by simp
next
  case (3 src rc cs)
  show ?case
  proof
    assume ok: "\<forall>m \<in> set (nodesOfChildren (rc # cs)). wholeRange src m \<noteq> Some (Inl TypeError)"
    with 3(1) obtain a where a: "walk src (snd rc) = Inr a" by auto
    from ok 3(2) [OF a] obtain b where "walkChildren src cs = Inr b" by auto
    with a show "\<exists>es. walkChildren src (rc # cs) = Inr es" by simp
  qed
qed

lemma unrecognized_no_throw: "\<not> recognized n \<Longrightarrow> wholeRange src n \<noteq> Some (Inl TypeError)"
  by (simp add: recognized_def wholeRange_None [THEN iffD2])

lemma unrecognized_passes:
  assumes "\<not> recognized n"
  shows "walk src n = walkChildren src (properties n)"
proof -
  from assms have "\<not> returnsEarly n" "variableEdits n = []" "functionEdits n = []"
    by (simp_all add: recognized_def)
  then show ?thesis by (simp add: walk_passes split: sum.splits)
qed

lemma quiet_walk:
  assumes "quiet c"
  shows "walk src c = Inr []"
proof -
  from assms have un: "\<forall>n \<in> set (nodesOf c). \<not> recognized n" by (simp add: quiet_def list_all_iff)
  then have "\<forall>m \<in> set (nodesOf c). wholeRange src m \<noteq> Some (Inl TypeError)"
    by (simp add: unrecognized_no_throw)
  with walk_total(1) [of c src] obtain es where es: "walk src c = Inr es" by blast
  with walk_concat(1) [of src c es] have "es = concat (map (ownEdits src) (visited c))"
    by simp
  moreover have "\<forall>m \<in> set (visited c). ownEdits src m = []"
    using un visited_subset_nodesOf(1) [of c] by (auto simp: ownEdits_unrecognized)
  ultimately have "es = []" by simp
  with es show ?thesis by simp
qed

section \<open>Rendering\<close>

lemma substring_take_drop: "a \<le> b \<Longrightarrow> substring s a b = take (b - a) (drop a s)"
  by (simp add: substring_def min_def max_def)

lemma toString_Nil: "toString src [] = Some src"
  by (simp add: toString_def rangeOrder_def)

lemma toString_single:
  "s \<le> t \<Longrightarrow> t \<le> length src \<Longrightarrow> toString src [(s, t, r)] = Some (take s src @ r @ drop t src)"
  by (simp add: toString_def rangeOrder_def inRange_def)

lemma disjoint_sym: "disjoint a b = disjoint b a"
  by (auto simp: disjoint_def)

lemma pairwiseDisjoint_insort:
  "pairwiseDisjoint (insort_key f e es) = ((\<forall>d \<in> set es. disjoint e d) \<and> pairwiseDisjoint es)"
proof (induction es)
  case Nil
  show ?case by simp
next
  case (Cons d es)
  have "disjoint d e = disjoint e d" by (rule disjoint_sym)
  with Cons show ?case by (auto simp: set_insort_key)
qed

lemma pairwiseDisjoint_sort: "pairwiseDisjoint (sort_key f es) = pairwiseDisjoint es"
  by (induction es) (simp_all add: pairwiseDisjoint_insort)

lemma next_edit_after:
  assumes "(fst e, fst (snd e)) \<le> (fst d, fst (snd d))" and "disjoint e d"
    and "fst e \<le> fst (snd e)" and "fst d \<le> fst (snd d)"
  shows "fst (snd e) \<le> fst d"
  using assms by (auto simp: disjoint_def less_eq_prod_def)

text \<open>
  A slice of the text that no queued range overlaps is in the rendered text, byte
  for byte.
\<close>

lemma applyEdits_retains:
  assumes "sorted (map (\<lambda>e. (fst e, fst (snd e))) ss)" and "pairwiseDisjoint ss"
    and "\<forall>e \<in> set ss. inRange src e" and "\<forall>e \<in> set ss. cur \<le> fst e"
    and "cur \<le> a" and "a \<le> b" and "b \<le> length src"
    and "\<forall>e \<in> set ss. fst (snd e) \<le> a \<or> b \<le> fst e"
  shows "\<exists>k. take (b - a) (drop k (applyEdits src cur ss)) = take (b - a) (drop a src)"
  using assms
proof (induction ss arbitrary: cur)
  case Nil
  have "drop (a - cur) (drop cur src) = drop a src" using Nil.prems(5) by simp
  then show ?case by (metis applyEdits.simps(1))
next
  case (Cons e ss)
  let ?s = "fst e" and ?t = "fst (snd e)" and ?r = "snd (snd e)"
  let ?P = "take (?s - cur) (drop cur src)"
  from Cons.prems have st: "?s \<le> ?t" "?t \<le> length src" "cur \<le> ?s"
    by (simp_all add: inRange_def)
  have lenP: "length ?P = ?s - cur" using st by simp
  from Cons.prems(8) have "?t \<le> a \<or> b \<le> ?s" by simp
  then show ?case
  proof
    assume bs: "b \<le> ?s"
    have "drop (a - cur) (?P @ ?r @ applyEdits src ?t ss) =
          drop (a - cur) ?P @ ?r @ applyEdits src ?t ss"
      using lenP bs Cons.prems(5,6) by simp
    moreover have "drop (a - cur) ?P = take (?s - a) (drop a src)"
      using Cons.prems(5) bs \<open>a \<le> b\<close> by (simp add: drop_take)
    ultimately have "take (b - a) (drop (a - cur) (applyEdits src cur (e # ss)))
        = take (b - a) (drop a src)"
      using bs \<open>a \<le> b\<close> \<open>b \<le> length src\<close> by (simp add: min_def)
    then show ?thesis by blast
  next
    assume ta: "?t \<le> a"
    have after: "\<forall>d \<in> set ss. ?t \<le> fst d"
    proof
      fix d assume d: "d \<in> set ss"
      with Cons.prems(1) have "(fst e, fst (snd e)) \<le> (fst d, fst (snd d))" by auto
      moreover from d Cons.prems(2) have "disjoint e d" by simp
      moreover note st(1)
      moreover from d Cons.prems(3) have "fst d \<le> fst (snd d)" by (simp add: inRange_def)
      ultimately show "?t \<le> fst d" by (rule next_edit_after)
    qed
    from Cons.prems have "sorted (map (\<lambda>e. (fst e, fst (snd e))) ss)" "pairwiseDisjoint ss"
      "\<forall>e \<in> set ss. inRange src e" "\<forall>e \<in> set ss. fst (snd e) \<le> a \<or> b \<le> fst e"
      by simp_all
    from Cons.IH [OF this(1,2,3) after ta \<open>a \<le> b\<close> \<open>b \<le> length src\<close> this(4)]
    obtain k where k: "take (b - a) (drop k (applyEdits src ?t ss)) = take (b - a) (drop a src)"
      by blast
    have "drop (length ?P + length ?r + k) (applyEdits src cur (e # ss)) = drop k (applyEdits src ?t ss)"
      by (simp only: applyEdits.simps drop_append) simp
    with k show ?thesis by metis
  qed
qed

lemma toString_retains:
  assumes "toString src es = Some out" and "a \<le> b" and "b \<le> length src"
    and "\<forall>e \<in> set es. fst (snd e) \<le> a \<or> b \<le> fst e"
  shows "\<exists>k. take (b - a) (drop k out) = take (b - a) (drop a src)"
proof -
  from assms(1) have valid: "\<forall>e \<in> set es. inRange src e" "pairwiseDisjoint es"
    and out: "out = applyEdits src 0 (rangeOrder es)"
    by (auto simp: toString_def split: if_splits)
  have "sorted (map (\<lambda>e. (fst e, fst (snd e))) (rangeOrder es))"
    by (simp add: rangeOrder_def)
  moreover have "pairwiseDisjoint (rangeOrder es)"
    using valid(2) by (simp add: rangeOrder_def pairwiseDisjoint_sort)
  moreover have "set (rangeOrder es) = set es" by (simp add: rangeOrder_def)
  ultimately show ?thesis
    using applyEdits_retains [of "rangeOrder es" src 0 a b] valid(1) assms(2,3,4) out
    by simp
qed

lemma sum_list_insort:
  "sum_list (map f (insort_key k x xs)) = f x + sum_list (map (f :: edit \<Rightarrow> nat) xs)"
  by (induction xs) auto

lemma sum_list_rangeOrder:
  "sum_list (map f (rangeOrder es)) = sum_list (map (f :: edit \<Rightarrow> nat) es)"
  by (induction es) (simp_all add: rangeOrder_def sum_list_insort)

lemma applyEdits_length:
  assumes "sorted (map (\<lambda>e. (fst e, fst (snd e))) ss)" and "pairwiseDisjoint ss"
    and "\<forall>e \<in> set ss. inRange src e" and "\<forall>e \<in> set ss. cur \<le> fst e" and "cur \<le> length src"
  shows "length (applyEdits src cur ss) + sum_list (map (\<lambda>e. fst (snd e) - fst e) ss) =
         length src - cur + sum_list (map (\<lambda>e. length (snd (snd e))) ss)"
  using assms
proof (induction ss arbitrary: cur)
  case Nil
  then show ?case by simp
next
  case (Cons e ss)
  let ?s = "fst e" and ?t = "fst (snd e)"
  from Cons.prems have st: "?s \<le> ?t" "?t \<le> length src" "cur \<le> ?s"
    by (simp_all add: inRange_def)
  have after: "\<forall>d \<in> set ss. ?t \<le> fst d"
  proof
    fix d assume d: "d \<in> set ss"
    with Cons.prems(1) have "(fst e, fst (snd e)) \<le> (fst d, fst (snd d))" by auto
    moreover from d Cons.prems(2) have "disjoint e d" by simp
    moreover note st(1)
    moreover from d Cons.prems(3) have "fst d \<le> fst (snd d)" by (simp add: inRange_def)
    ultimately show "?t \<le> fst d" by (rule next_edit_after)
  qed
  from Cons.prems have "sorted (map (\<lambda>e. (fst e, fst (snd e))) ss)" "pairwiseDisjoint ss"
    "\<forall>e \<in> set ss. inRange src e"
    by simp_all
  from Cons.IH [OF this after st(2)]
  have "length (applyEdits src ?t ss) + sum_list (map (\<lambda>e. fst (snd e) - fst e) ss) =
        length src - ?t + sum_list (map (\<lambda>e. length (snd (snd e))) ss)" .
  with st show ?case by simp
qed

lemma toString_length:
  assumes "toString src es = Some out"
  shows "length out + sum_list (map (\<lambda>e. fst (snd e) - fst e) es) =
         length src + sum_list (map (\<lambda>e. length (snd (snd e))) es)"
proof -
  from assms have valid: "\<forall>e \<in> set es. inRange src e" "pairwiseDisjoint es"
    and out: "out = applyEdits src 0 (rangeOrder es)"
    by (auto simp: toString_def split: if_splits)
  have "sorted (map (\<lambda>e. (fst e, fst (snd e))) (rangeOrder es))"
    by (simp add: rangeOrder_def)
  moreover have "pairwiseDisjoint (rangeOrder es)"
    using valid(2) by (simp add: rangeOrder_def pairwiseDisjoint_sort)
  moreover have "\<forall>e \<in> set (rangeOrder es). inRange src e"
    using valid(1) by (simp add: rangeOrder_def)
  ultimately have "length (applyEdits src 0 (rangeOrder es)) +
      sum_list (map (\<lambda>e. fst (snd e) - fst e) (rangeOrder es)) =
      length src - 0 + sum_list (map (\<lambda>e. length (snd (snd e))) (rangeOrder es))"
    by (intro applyEdits_length) simp_all
  with out show ?thesis by (simp add: sum_list_rangeOrder)
qed

section \<open>Where the edits lie\<close>

lemma within_append: "within lo hi (xs @ ys) = (within lo hi xs \<and> within lo hi ys)"
  by (auto simp: within_def)

lemma within_widen: "within lo hi es \<Longrightarrow> lo' \<le> lo \<Longrightarrow> hi \<le> hi' \<Longrightarrow> within lo' hi' es"
  by (force simp: within_def)

lemma ordered_le: "ordered lo hi cs \<Longrightarrow> lo \<le> hi"
proof (induction cs arbitrary: lo)
  case Nil
  then show ?case by simp
next
  case (Cons c cs)
  from Cons.prems have "ordered (getEnd c) hi cs" by simp
  then have "getEnd c \<le> hi" by (rule Cons.IH)
  with Cons.prems show ?case by simp
qed

lemma ordered_member:
  "ordered lo hi cs \<Longrightarrow> c \<in> set cs \<Longrightarrow> lo \<le> pos c \<and> pos c \<le> getEnd c \<and> getEnd c \<le> hi"
proof (induction cs arbitrary: lo)
  case Nil
  then show ?case by simp
next
  case (Cons d cs)
  from Cons.prems(1) have o: "lo \<le> pos d" "pos d \<le> getEnd d" "ordered (getEnd d) hi cs" by simp_all
  from ordered_le [OF o(3)] have le: "getEnd d \<le> hi" .
  show ?case
  proof (cases "c = d")
    case True
    with o le show ?thesis by simp
  next
    case False
    with Cons.prems(2) have "c \<in> set cs" by simp
    from Cons.IH [OF o(3) this] o show ?thesis by simp
  qed
qed

lemma children_in_nodesOfChildren: "set (map snd cs) \<subseteq> set (nodesOfChildren cs)"
  by (induction cs) (auto simp: nodesOf.simps)

lemma nodesOf_child:
  "m \<in> set (nodesOf n) \<longrightarrow> set (forEachChild m) \<subseteq> set (nodesOf n)"
  "m \<in> set (nodesOfChildren cs) \<longrightarrow> set (forEachChild m) \<subseteq> set (nodesOfChildren cs)"
proof (induction n and cs rule: nodesOf_nodesOfChildren.induct)
  case (1 n)
  show ?case
  proof
    assume m: "m \<in> set (nodesOf n)"
    show "set (forEachChild m) \<subseteq> set (nodesOf n)"
    proof (cases "m = n")
      case True
      with children_in_nodesOfChildren [of "properties n"] show ?thesis
        by (auto simp: forEachChild_def nodesOf.simps [of n])
    next
      case False
      with m have "m \<in> set (nodesOfChildren (properties n))" by (simp add: nodesOf.simps [of n])
      with 1 show ?thesis by (auto simp: nodesOf.simps [of n])
    qed
  qed
next
  case 2
  show ?case by simp
next
  case (3 rc cs)
  then show ?case by auto
qed

lemma type_child:
  assumes "type n = Some t"
  shows "t \<in> set (forEachChild n)"
proof -
  from assms obtain ts where "propertyNodes P_type n = t # ts"
    by (auto simp: type_def single_def split: list.splits)
  then have "t \<in> set (propertyNodes P_type n)" by simp
  then show ?thesis by (auto simp: propertyNodes_def forEachChild_def)
qed

lemma parameters_children: "set (parameters n) \<subseteq> set (forEachChild n)"
  by (auto simp: parameters_def propertyNodes_def forEachChild_def)

lemma findChild_member: "findChild k n = Some c \<Longrightarrow> c \<in> set (getChildren n)"
  by (auto simp: findChild_def find_Some_iff)

lemma colonToTypeEnd_within:
  assumes "childrenInOrder n" and "tokensInside n"
  shows "within (pos n) (getEnd n) (colonToTypeEnd n)"
proof (cases "type n")
  case None
  then show ?thesis by (simp add: colonToTypeEnd_def within_def)
next
  case (Some t)
  show ?thesis
  proof (cases "findChild ColonToken n")
    case None
    with Some show ?thesis by (simp add: colonToTypeEnd_def within_def)
  next
    case (Some c)
    from findChild_member [OF this] assms(2) have "pos n \<le> cpos c"
      by (simp add: tokensInside_def list_all_iff)
    moreover from ordered_member [OF assms(1) [unfolded childrenInOrder_def] type_child [OF \<open>type n = Some t\<close>]]
    have "getEnd t \<le> getEnd n" by simp
    ultimately show ?thesis using Some \<open>type n = Some t\<close>
      by (simp add: colonToTypeEnd_def within_def)
  qed
qed

lemma typeParameterList_within:
  assumes "tokensInside n"
  shows "within (pos n) (getEnd n) (typeParameterList n)"
proof (cases "typeParameterList n = []")
  case True
  then show ?thesis by (simp add: within_def)
next
  case False
  then obtain lt gt where lt: "findChild LessThanToken n = Some lt"
    and gt: "findChild GreaterThanToken n = Some gt"
    and l: "typeParameterList n = [(cpos lt, cend gt, '''')]"
    by (auto simp: typeParameterList_def split: if_splits option.splits)
  from findChild_member [OF lt] findChild_member [OF gt] assms
  have "pos n \<le> cpos lt \<and> cend gt \<le> getEnd n"
    by (simp add: tokensInside_def list_all_iff)
  with l show ?thesis by (simp add: within_def)
qed

lemma own_within:
  assumes co: "childrenInOrder n" and ti: "tokensInside n"
    and ps: "\<forall>q \<in> set (parameters n). childrenInOrder q \<and> tokensInside q"
  shows "within (pos n) (getEnd n) (variableEdits n @ functionEdits n)"
proof -
  note c = colonToTypeEnd_within [OF co ti]
  have p: "within (pos n) (getEnd n) (colonToTypeEnd q)" if "q \<in> set (parameters n)" for q
  proof -
    from that parameters_children have "q \<in> set (forEachChild n)" by blast
    from ordered_member [OF co [unfolded childrenInOrder_def] this]
    have "pos n \<le> pos q" "getEnd q \<le> getEnd n" by simp_all
    moreover from ps that have "within (pos q) (getEnd q) (colonToTypeEnd q)"
      by (simp add: colonToTypeEnd_within)
    ultimately show ?thesis by (auto intro: within_widen)
  qed
  then have "within (pos n) (getEnd n) (concat (map colonToTypeEnd (parameters n)))"
    by (auto simp: within_def)
  with c typeParameterList_within [OF ti] show ?thesis
    by (simp add: variableEdits_def functionEdits_def within_append) (simp add: within_def)
qed

text \<open>The edits of a walk lie inside the node walked.\<close>

lemma walk_within:
  "(\<forall>m \<in> set (visited n). childrenInOrder m \<and>
       within (pos m) (getEnd m) (variableEdits m @ functionEdits m)) \<longrightarrow>
     (\<forall>es. walk src n = Inr es \<longrightarrow> within (pos n) (getEnd n) es)"
  "(\<forall>m \<in> set (visitedChildren cs). childrenInOrder m \<and>
       within (pos m) (getEnd m) (variableEdits m @ functionEdits m)) \<longrightarrow>
     (\<forall>es lo hi. ordered lo hi (map snd cs) \<and> walkChildren src cs = Inr es \<longrightarrow> within lo hi es)"
proof (induction src n and src cs rule: walk_walkChildren.induct)
  case (1 src n)
  show ?case
  proof (intro impI allI)
    fix es
    assume h: "\<forall>m \<in> set (visited n). childrenInOrder m \<and>
       within (pos m) (getEnd m) (variableEdits m @ functionEdits m)"
      and w: "walk src n = Inr es"
    show "within (pos n) (getEnd n) es"
    proof (cases "wholeRange src n")
      case (Some x)
      with w obtain ed where x: "x = Inr ed" and es: "es = [ed]"
        by (cases x) (auto simp: walk.simps)
      from Some x have "fst ed = pos n \<and> fst (snd ed) = getEnd n" by (simp add: wholeRange_range)
      with es show ?thesis by (simp add: within_def)
    next
      case None
      then have nr: "\<not> returnsEarly n" by (simp add: wholeRange_None)
      with w obtain ds where ds: "walkChildren src (properties n) = Inr ds"
        and es: "es = (variableEdits n @ functionEdits n) @ ds"
        by (auto simp: walk_passes split: sum.splits)
      from h nr have order: "ordered (pos n) (getEnd n) (map snd (properties n))"
        and own: "within (pos n) (getEnd n) (variableEdits n @ functionEdits n)"
        and sub: "\<forall>m \<in> set (visitedChildren (properties n)). childrenInOrder m \<and>
                    within (pos m) (getEnd m) (variableEdits m @ functionEdits m)"
        by (simp_all add: visited.simps [of n] childrenInOrder_def forEachChild_def)
      from 1 [OF None] sub order ds have "within (pos n) (getEnd n) ds" by blast
      with own es show ?thesis by (simp add: within_append)
    qed
  qed
next
  case (2 src)
  show ?case by (simp add: within_def)
next
  case (3 src rc cs)
  show ?case
  proof (intro impI allI)
    fix es lo hi
    assume h: "\<forall>m \<in> set (visitedChildren (rc # cs)). childrenInOrder m \<and>
       within (pos m) (getEnd m) (variableEdits m @ functionEdits m)"
      and ow: "ordered lo hi (map snd (rc # cs)) \<and> walkChildren src (rc # cs) = Inr es"
    from ow obtain a b where a: "walk src (snd rc) = Inr a" and b: "walkChildren src cs = Inr b"
      and es: "es = a @ b"
      by (auto split: sum.splits)
    from ow have o: "lo \<le> pos (snd rc)" "pos (snd rc) \<le> getEnd (snd rc)"
      "ordered (getEnd (snd rc)) hi (map snd cs)"
      by simp_all
    from 3(1) h a have wa: "within (pos (snd rc)) (getEnd (snd rc)) a" by simp
    from 3(2) [OF a] h o(3) b have wb: "within (getEnd (snd rc)) hi b" by simp
    from ordered_le [OF o(3)] have "getEnd (snd rc) \<le> hi" .
    with wa o(1) have "within lo hi a" by (auto intro: within_widen)
    moreover from wb o(1,2) have "within lo hi b" by (auto intro: within_widen)
    ultimately show "within lo hi es" using es by (simp add: within_append)
  qed
qed

text \<open>
  In a tree that keeps the range contract, the ranges a node deletes for its own
  type parameters and annotations lie inside the node.
\<close>

lemma nodesOf_trans:
  "m \<in> set (nodesOf n) \<longrightarrow> set (nodesOf m) \<subseteq> set (nodesOf n)"
  "m \<in> set (nodesOfChildren cs) \<longrightarrow> set (nodesOf m) \<subseteq> set (nodesOfChildren cs)"
proof (induction n and cs rule: nodesOf_nodesOfChildren.induct)
  case (1 n)
  show ?case
  proof
    assume m: "m \<in> set (nodesOf n)"
    show "set (nodesOf m) \<subseteq> set (nodesOf n)"
    proof (cases "m = n")
      case True
      then show ?thesis by simp
    next
      case False
      with m have "m \<in> set (nodesOfChildren (properties n))" by (simp add: nodesOf.simps [of n])
      with 1 show ?thesis by (auto simp: nodesOf.simps [of n])
    qed
  qed
next
  case 2
  show ?case by simp
next
  case (3 rc cs)
  then show ?case by auto
qed

lemma contract_below:
  assumes "rangesNested root" and "tokensNested root" and "n \<in> set (nodesOf root)"
  shows "\<forall>m \<in> set (visited n). childrenInOrder m \<and>
           within (pos m) (getEnd m) (variableEdits m @ functionEdits m)"
proof
  fix m assume "m \<in> set (visited n)"
  with visited_subset_nodesOf(1) [of n] nodesOf_trans(1) [of n root] assms(3)
  have m: "m \<in> set (nodesOf root)" by blast
  from assms have all: "\<forall>k \<in> set (nodesOf root). childrenInOrder k \<and> tokensInside k"
    by (simp add: rangesNested_def tokensNested_def list_all_iff)
  from nodesOf_child(1) [of m root] m parameters_children [of m]
  have "set (parameters m) \<subseteq> set (nodesOf root)" by blast
  with all have "\<forall>q \<in> set (parameters m). childrenInOrder q \<and> tokensInside q" by blast
  with all m show "childrenInOrder m \<and> within (pos m) (getEnd m) (variableEdits m @ functionEdits m)"
    by (simp add: own_within)
qed

text \<open>
  The frame of a walk: a node that is reached clear lies inside the nodes on the
  way to it, and every edit of the walk is an edit of the walk of that node or
  lies outside it.
\<close>

lemma reachedClear_visited:
  "reachedClear x n \<longrightarrow> x \<in> set (visited n)"
  "reachedClearIn x cs \<longrightarrow> x \<in> set (visitedChildren cs)"
proof (induction x n and x cs rule: reachedClear_reachedClearIn.induct)
  case (1 x n)
  then show ?case by (auto simp: reachedClear.simps [of x n] visited.simps [of n])
next
  case (2 x)
  show ?case by simp
next
  case (3 x rc cs)
  then show ?case by auto
qed

lemma reachedClear_range:
  "reachedClear x n \<longrightarrow> (\<forall>m \<in> set (visited n). childrenInOrder m) \<longrightarrow>
     pos n \<le> pos x \<and> getEnd x \<le> getEnd n"
  "reachedClearIn x cs \<longrightarrow> (\<forall>m \<in> set (visitedChildren cs). childrenInOrder m) \<longrightarrow>
     (\<forall>lo hi. ordered lo hi (map snd cs) \<longrightarrow> lo \<le> pos x \<and> getEnd x \<le> hi)"
proof (induction x n and x cs rule: reachedClear_reachedClearIn.induct)
  case (1 x n)
  show ?case
  proof (intro impI)
    assume r: "reachedClear x n" and h: "\<forall>m \<in> set (visited n). childrenInOrder m"
    show "pos n \<le> pos x \<and> getEnd x \<le> getEnd n"
    proof (cases "x = n")
      case True
      then show ?thesis by simp
    next
      case False
      with r have nr: "\<not> returnsEarly n" and rc: "reachedClearIn x (properties n)"
        by (simp_all add: reachedClear.simps [of x n])
      from h nr have "ordered (pos n) (getEnd n) (map snd (properties n))"
        and "\<forall>m \<in> set (visitedChildren (properties n)). childrenInOrder m"
        by (simp_all add: visited.simps [of n] childrenInOrder_def forEachChild_def)
      with 1 rc show ?thesis by blast
    qed
  qed
next
  case (2 x)
  show ?case by simp
next
  case (3 x rc cs)
  show ?case
  proof (intro impI allI)
    fix lo hi
    assume r: "reachedClearIn x (rc # cs)"
      and h: "\<forall>m \<in> set (visitedChildren (rc # cs)). childrenInOrder m"
      and o: "ordered lo hi (map snd (rc # cs))"
    from o have o': "lo \<le> pos (snd rc)" "pos (snd rc) \<le> getEnd (snd rc)"
      "ordered (getEnd (snd rc)) hi (map snd cs)"
      by simp_all
    from ordered_le [OF o'(3)] have le: "getEnd (snd rc) \<le> hi" .
    from r have "reachedClear x (snd rc) \<or> reachedClearIn x cs" by simp
    then show "lo \<le> pos x \<and> getEnd x \<le> hi"
    proof
      assume "reachedClear x (snd rc)"
      with 3(1) h have "pos (snd rc) \<le> pos x \<and> getEnd x \<le> getEnd (snd rc)" by simp
      with o'(1) le show ?thesis by simp
    next
      assume "reachedClearIn x cs"
      with 3(2) h o'(3) have "getEnd (snd rc) \<le> pos x \<and> getEnd x \<le> hi" by simp
      with o'(1,2) show ?thesis by simp
    qed
  qed
qed

lemma walk_frame:
  "reachedClear x n \<longrightarrow>
     (\<forall>m \<in> set (visited n). childrenInOrder m \<and>
        within (pos m) (getEnd m) (variableEdits m @ functionEdits m)) \<longrightarrow>
     (\<forall>es. walk src n = Inr es \<longrightarrow>
        (\<exists>ex. walk src x = Inr ex \<and> (\<forall>e \<in> set es. e \<in> set ex \<or> outside e x)))"
  "reachedClearIn x cs \<longrightarrow>
     (\<forall>m \<in> set (visitedChildren cs). childrenInOrder m \<and>
        within (pos m) (getEnd m) (variableEdits m @ functionEdits m)) \<longrightarrow>
     (\<forall>es lo hi. ordered lo hi (map snd cs) \<and> walkChildren src cs = Inr es \<longrightarrow>
        (\<exists>ex. walk src x = Inr ex \<and> (\<forall>e \<in> set es. e \<in> set ex \<or> outside e x)))"
proof (induction src n and src cs rule: walk_walkChildren.induct)
  case (1 src n)
  show ?case
  proof (intro impI allI)
    fix es
    assume r: "reachedClear x n"
      and h: "\<forall>m \<in> set (visited n). childrenInOrder m \<and>
        within (pos m) (getEnd m) (variableEdits m @ functionEdits m)"
      and w: "walk src n = Inr es"
    show "\<exists>ex. walk src x = Inr ex \<and> (\<forall>e \<in> set es. e \<in> set ex \<or> outside e x)"
    proof (cases "x = n")
      case True
      with w show ?thesis by auto
    next
      case False
      with r have nr: "\<not> returnsEarly n"
        and own: "\<forall>a \<in> set (variableEdits n @ functionEdits n). outside a x"
        and rc: "reachedClearIn x (properties n)"
        by (simp_all add: reachedClear.simps [of x n] list_all_iff)
      from nr have none: "wholeRange src n = None" by (simp add: wholeRange_None)
      from w nr obtain ds where ds: "walkChildren src (properties n) = Inr ds"
        and es: "es = (variableEdits n @ functionEdits n) @ ds"
        by (auto simp: walk_passes split: sum.splits)
      from h nr have order: "ordered (pos n) (getEnd n) (map snd (properties n))"
        and sub: "\<forall>m \<in> set (visitedChildren (properties n)). childrenInOrder m \<and>
                    within (pos m) (getEnd m) (variableEdits m @ functionEdits m)"
        by (simp_all add: visited.simps [of n] childrenInOrder_def forEachChild_def)
      from 1 [OF none] rc sub order ds
      obtain ex where ex: "walk src x = Inr ex" and d: "\<forall>e \<in> set ds. e \<in> set ex \<or> outside e x"
        by blast
      from own d es have "\<forall>e \<in> set es. e \<in> set ex \<or> outside e x" by auto
      with ex show ?thesis by blast
    qed
  qed
next
  case (2 src)
  show ?case by simp
next
  case (3 src rc cs)
  show ?case
  proof (intro impI allI)
    fix es lo hi
    assume r: "reachedClearIn x (rc # cs)"
      and h: "\<forall>m \<in> set (visitedChildren (rc # cs)). childrenInOrder m \<and>
        within (pos m) (getEnd m) (variableEdits m @ functionEdits m)"
      and ow: "ordered lo hi (map snd (rc # cs)) \<and> walkChildren src (rc # cs) = Inr es"
    from ow obtain a b where a: "walk src (snd rc) = Inr a" and b: "walkChildren src cs = Inr b"
      and es: "es = a @ b"
      by (auto split: sum.splits)
    from ow have o: "lo \<le> pos (snd rc)" "pos (snd rc) \<le> getEnd (snd rc)"
      "ordered (getEnd (snd rc)) hi (map snd cs)"
      by simp_all
    from h have h1: "\<forall>m \<in> set (visited (snd rc)). childrenInOrder m \<and>
        within (pos m) (getEnd m) (variableEdits m @ functionEdits m)"
      and h2: "\<forall>m \<in> set (visitedChildren cs). childrenInOrder m \<and>
        within (pos m) (getEnd m) (variableEdits m @ functionEdits m)"
      by simp_all
    from walk_within(1) [of "snd rc" src] h1 a
    have wa: "within (pos (snd rc)) (getEnd (snd rc)) a" by simp
    from walk_within(2) [of cs src] h2 o(3) b have wb: "within (getEnd (snd rc)) hi b" by simp
    from r have "reachedClear x (snd rc) \<or> reachedClearIn x cs" by simp
    then show "\<exists>ex. walk src x = Inr ex \<and> (\<forall>e \<in> set es. e \<in> set ex \<or> outside e x)"
    proof
      assume rx: "reachedClear x (snd rc)"
      with 3(1) h1 a obtain ex where ex: "walk src x = Inr ex"
        and d: "\<forall>e \<in> set a. e \<in> set ex \<or> outside e x"
        by blast
      from reachedClear_range(1) [of x "snd rc"] rx h1 have "getEnd x \<le> getEnd (snd rc)" by simp
      with wb have "\<forall>e \<in> set b. outside e x" by (force simp: within_def outside_def)
      with d es have "\<forall>e \<in> set es. e \<in> set ex \<or> outside e x" by auto
      with ex show ?thesis by blast
    next
      assume rx: "reachedClearIn x cs"
      with 3(2) [OF a] h2 o(3) b obtain ex where ex: "walk src x = Inr ex"
        and d: "\<forall>e \<in> set b. e \<in> set ex \<or> outside e x"
        by blast
      from reachedClear_range(2) [of x cs] rx h2 o(3) have "getEnd (snd rc) \<le> pos x" by simp
      with wa have "\<forall>e \<in> set a. outside e x" by (force simp: within_def outside_def)
      with d es have "\<forall>e \<in> set es. e \<in> set ex \<or> outside e x" by auto
      with ex show ?thesis by blast
    qed
  qed
qed

lemma nodesOfChildren_set: "set (nodesOfChildren cs) = (\<Union>c \<in> set (map snd cs). set (nodesOf c))"
  by (induction cs) auto

lemma namespacedName_quiet:
  assumes "kind x = JsxNamespacedName" and "list_all quiet (forEachChild x)"
  shows "quiet x"
proof -
  from assms(1) have "\<not> returnsEarly x" using returnsEarly_not_markup [of x] by auto
  moreover from assms(1) have "variableEdits x = []" "functionEdits x = []"
    by (simp_all add: annotation_kinds kind_defs)
  ultimately have "\<not> recognized x" by (simp add: recognized_def)
  moreover from assms(2) have "\<forall>m \<in> set (nodesOfChildren (properties x)). \<not> recognized m"
    by (auto simp: nodesOfChildren_set forEachChild_def quiet_def list_all_iff)
  ultimately show ?thesis by (simp add: quiet_def nodesOf.simps [of x] list_all_iff)
qed

text \<open>
  In a tree that keeps the range contract, a node that the walk comes to outside
  the types, and that is no parameter, is reached clear.
\<close>

lemma rangeContract_parts:
  "rangeContract root \<Longrightarrow> rangesNested root \<and> tokensNested root"
  by (simp add: rangeContract_def rangesNested_def tokensNested_def list_all_iff)

lemma typesApart_colon:
  assumes "typesApart n" and "a \<in> set (colonToTypeEnd n)" and "rc \<in> set (properties n)"
    and "fst rc \<noteq> P_type"
  shows "outside a (snd rc)"
proof -
  from assms(2) obtain t c where t: "type n = Some t" and c: "findChild ColonToken n = Some c"
    and a: "a = (cpos c, getEnd t, '''')"
    by (cases "type n"; cases "findChild ColonToken n") (auto simp: colonToTypeEnd_def)
  from assms(1) t c
  have "list_all (\<lambda>rc. fst rc = P_type \<or> getEnd (snd rc) \<le> cpos c \<or> getEnd t \<le> pos (snd rc))
          (properties n)"
    by (simp add: typesApart_def)
  with assms(3,4) have "getEnd (snd rc) \<le> cpos c \<or> getEnd t \<le> pos (snd rc)"
    by (auto simp: list_all_iff)
  with a show ?thesis by (simp add: outside_def)
qed

lemma typesApart_brackets:
  assumes "typesApart n" and "a \<in> set (typeParameterList n)" and "rc \<in> set (properties n)"
    and "fst rc \<noteq> P_typeParameters"
  shows "outside a (snd rc)"
proof -
  have ne: "typeParameters n \<noteq> []"
  proof
    assume "typeParameters n = []"
    then have "typeParameterList n = []" by (simp add: typeParameterList_def)
    with assms(2) show False by simp
  qed
  with assms(2) obtain lt gt where lt: "findChild LessThanToken n = Some lt"
    and gt: "findChild GreaterThanToken n = Some gt" and a: "a = (cpos lt, cend gt, '''')"
    by (cases "findChild LessThanToken n"; cases "findChild GreaterThanToken n")
      (auto simp: typeParameterList_def)
  from assms(1) ne lt gt
  have "list_all (\<lambda>rc. fst rc = P_typeParameters \<or> getEnd (snd rc) \<le> cpos lt \<or>
            cend gt \<le> pos (snd rc)) (properties n)"
    by (simp add: typesApart_def)
  with assms(3,4) have "getEnd (snd rc) \<le> cpos lt \<or> cend gt \<le> pos (snd rc)"
    by (auto simp: list_all_iff)
  with a show ?thesis by (simp add: outside_def)
qed

lemma own_edits_cases:
  assumes "a \<in> set (variableEdits n @ functionEdits n)"
  shows "a \<in> set (colonToTypeEnd n) \<or> a \<in> set (typeParameterList n) \<or>
         (\<exists>q \<in> set (parameters n). a \<in> set (colonToTypeEnd q))"
  using assms by (auto simp: variableEdits_def functionEdits_def split: if_splits)

lemma reachedOutsideTypesIn_member:
  "reachedOutsideTypesIn x cs \<Longrightarrow>
   \<exists>rc \<in> set cs. fst rc \<noteq> P_type \<and> fst rc \<noteq> P_typeParameters \<and> reachedOutsideTypes x (snd rc)"
  by (induction cs) auto

lemma reachedOutsideTypes_nodesOf:
  "reachedOutsideTypes x n \<longrightarrow> x \<in> set (nodesOf n)"
  "reachedOutsideTypesIn x cs \<longrightarrow> x \<in> set (nodesOfChildren cs)"
proof (induction x n and x cs rule: reachedOutsideTypes_reachedOutsideTypesIn.induct)
  case (1 x n)
  then show ?case by (auto simp: reachedOutsideTypes.simps [of x n] nodesOf.simps [of n])
next
  case (2 x)
  show ?case by simp
next
  case (3 x rc cs)
  then show ?case by auto
qed

lemma nodesOf_range:
  "x \<in> set (nodesOf n) \<longrightarrow> (\<forall>m \<in> set (nodesOf n). childrenInOrder m) \<longrightarrow>
     pos n \<le> pos x \<and> getEnd x \<le> getEnd n"
  "x \<in> set (nodesOfChildren cs) \<longrightarrow> (\<forall>m \<in> set (nodesOfChildren cs). childrenInOrder m) \<longrightarrow>
     (\<forall>lo hi. ordered lo hi (map snd cs) \<longrightarrow> lo \<le> pos x \<and> getEnd x \<le> hi)"
proof (induction n and cs rule: nodesOf_nodesOfChildren.induct)
  case (1 n)
  show ?case
  proof (intro impI)
    assume x: "x \<in> set (nodesOf n)" and h: "\<forall>m \<in> set (nodesOf n). childrenInOrder m"
    show "pos n \<le> pos x \<and> getEnd x \<le> getEnd n"
    proof (cases "x = n")
      case True
      then show ?thesis by simp
    next
      case False
      with x have xc: "x \<in> set (nodesOfChildren (properties n))" by (simp add: nodesOf.simps [of n])
      from h have "ordered (pos n) (getEnd n) (map snd (properties n))"
        and "\<forall>m \<in> set (nodesOfChildren (properties n)). childrenInOrder m"
        by (simp_all add: nodesOf.simps [of n] childrenInOrder_def forEachChild_def)
      with 1 xc show ?thesis by blast
    qed
  qed
next
  case 2
  show ?case by simp
next
  case (3 rc cs)
  show ?case
  proof (intro impI allI)
    fix lo hi
    assume x: "x \<in> set (nodesOfChildren (rc # cs))"
      and h: "\<forall>m \<in> set (nodesOfChildren (rc # cs)). childrenInOrder m"
      and o: "ordered lo hi (map snd (rc # cs))"
    from o have o': "lo \<le> pos (snd rc)" "pos (snd rc) \<le> getEnd (snd rc)"
      "ordered (getEnd (snd rc)) hi (map snd cs)"
      by simp_all
    from ordered_le [OF o'(3)] have le: "getEnd (snd rc) \<le> hi" .
    from x have "x \<in> set (nodesOf (snd rc)) \<or> x \<in> set (nodesOfChildren cs)" by simp
    then show "lo \<le> pos x \<and> getEnd x \<le> hi"
    proof
      assume "x \<in> set (nodesOf (snd rc))"
      with 3(1) h have "pos (snd rc) \<le> pos x \<and> getEnd x \<le> getEnd (snd rc)" by simp
      with o'(1) le show ?thesis by simp
    next
      assume "x \<in> set (nodesOfChildren cs)"
      with 3(2) h o'(3) have "getEnd (snd rc) \<le> pos x \<and> getEnd x \<le> hi" by simp
      with o'(1,2) show ?thesis by simp
    qed
  qed
qed

lemma ordered_distinct:
  "ordered lo hi cs \<Longrightarrow> c \<in> set cs \<Longrightarrow> d \<in> set cs \<Longrightarrow> c \<noteq> d \<Longrightarrow>
   getEnd c \<le> pos d \<or> getEnd d \<le> pos c"
proof (induction cs arbitrary: lo)
  case Nil
  then show ?case by simp
next
  case (Cons e es)
  from Cons.prems(1) have o: "ordered (getEnd e) hi es" by simp
  show ?case
  proof (cases "c = e")
    case True
    with Cons.prems(3,4) have "d \<in> set es" by auto
    from ordered_member [OF o this] True show ?thesis by simp
  next
    case False
    with Cons.prems(2) have c: "c \<in> set es" by simp
    show ?thesis
    proof (cases "d = e")
      case True
      from ordered_member [OF o c] True show ?thesis by simp
    next
      case False
      with Cons.prems(3) have "d \<in> set es" by simp
      from Cons.IH [OF o c this Cons.prems(4)] show ?thesis .
    qed
  qed
qed

lemma outside_within:
  "outside a c \<Longrightarrow> pos c \<le> pos x \<Longrightarrow> getEnd x \<le> getEnd c \<Longrightarrow> outside a x"
  by (auto simp: outside_def)

lemma outside_types_clear:
  "reachedOutsideTypes x n \<longrightarrow>
     (\<forall>m \<in> set (nodesOf n). childrenInOrder m \<and> tokensInside m \<and> typesApart m) \<longrightarrow>
     kind x \<noteq> Parameter \<longrightarrow> reachedClear x n"
  "reachedOutsideTypesIn x cs \<longrightarrow>
     (\<forall>m \<in> set (nodesOfChildren cs). childrenInOrder m \<and> tokensInside m \<and> typesApart m) \<longrightarrow>
     kind x \<noteq> Parameter \<longrightarrow> reachedClearIn x cs"
proof (induction x n and x cs rule: reachedOutsideTypes_reachedOutsideTypesIn.induct)
  case (1 x n)
  show ?case
  proof (intro impI)
    assume r: "reachedOutsideTypes x n"
      and h: "\<forall>m \<in> set (nodesOf n). childrenInOrder m \<and> tokensInside m \<and> typesApart m"
      and k: "kind x \<noteq> Parameter"
    show "reachedClear x n"
    proof (cases "x = n")
      case True
      then show ?thesis by (simp add: reachedClear.simps [of n n])
    next
      case False
      with r have nr: "\<not> returnsEarly n" and rin: "reachedOutsideTypesIn x (properties n)"
        by (simp_all add: reachedOutsideTypes.simps [of x n])
      from h have hn: "childrenInOrder n" "tokensInside n" "typesApart n"
        and hc: "\<forall>m \<in> set (nodesOfChildren (properties n)).
                   childrenInOrder m \<and> tokensInside m \<and> typesApart m"
        by (simp_all add: nodesOf.simps [of n])
      from 1 rin hc k have cin: "reachedClearIn x (properties n)" by blast
      from reachedOutsideTypesIn_member [OF rin] obtain rc where rc: "rc \<in> set (properties n)"
        and tag: "fst rc \<noteq> P_type" "fst rc \<noteq> P_typeParameters"
        and rch: "reachedOutsideTypes x (snd rc)"
        by blast
      from rc have chn: "snd rc \<in> set (forEachChild n)" by (auto simp: forEachChild_def)
      have below: "set (nodesOf c) \<subseteq> set (nodesOf n)" if "c \<in> set (forEachChild n)" for c
      proof -
        have "n \<in> set (nodesOf n)" by (simp add: nodesOf.simps [of n])
        with nodesOf_child(1) [of n n] that have "c \<in> set (nodesOf n)" by blast
        with nodesOf_trans(1) [of c n] show ?thesis by blast
      qed
      have inside: "pos c \<le> pos x \<and> getEnd x \<le> getEnd c"
        if "c \<in> set (nodesOf n)" "reachedOutsideTypes x c" for c
      proof -
        from that(1) nodesOf_trans(1) [of c n] h have "\<forall>m \<in> set (nodesOf c). childrenInOrder m"
          by blast
        with nodesOf_range(1) [of x c] reachedOutsideTypes_nodesOf(1) [of x c] that(2)
        show ?thesis by blast
      qed
      from below [OF chn] have "snd rc \<in> set (nodesOf n)" by (auto simp: nodesOf.simps [of "snd rc"])
      from inside [OF this rch] have xin: "pos (snd rc) \<le> pos x" "getEnd x \<le> getEnd (snd rc)"
        by simp_all
      have "outside a x" if a: "a \<in> set (variableEdits n @ functionEdits n)" for a
      proof -
        from own_edits_cases [OF a]
        consider "a \<in> set (colonToTypeEnd n)" | "a \<in> set (typeParameterList n)"
          | q where "q \<in> set (parameters n)" "a \<in> set (colonToTypeEnd q)"
          by blast
        then show ?thesis
        proof cases
          case 1
          from typesApart_colon [OF hn(3) 1 rc tag(1)] xin show ?thesis by (rule outside_within)
        next
          case 2
          from typesApart_brackets [OF hn(3) 2 rc tag(2)] xin show ?thesis by (rule outside_within)
        next
          case 3
          from 3(1) parameters_children have qn: "q \<in> set (forEachChild n)" by blast
          with below have "set (nodesOf q) \<subseteq> set (nodesOf n)" by blast
          then have qin: "q \<in> set (nodesOf n)" by (auto simp: nodesOf.simps [of q])
          with h have hq: "childrenInOrder q" "tokensInside q" "typesApart q" by simp_all
          from hn(3) 3(1) have kq: "kind q = Parameter" by (simp add: typesApart_def list_all_iff)
          from colonToTypeEnd_within [OF hq(1,2)] 3(2)
          have aq: "pos q \<le> fst a" "fst (snd a) \<le> getEnd q" by (simp_all add: within_def)
          show ?thesis
          proof (cases "snd rc = q")
            case True
            from kq k have "x \<noteq> q" by auto
            with rch True have "reachedOutsideTypesIn x (properties q)"
              by (simp add: reachedOutsideTypes.simps [of x q])
            from reachedOutsideTypesIn_member [OF this] obtain rg where rg: "rg \<in> set (properties q)"
              and tg: "fst rg \<noteq> P_type" and rgx: "reachedOutsideTypes x (snd rg)"
              by blast
            from rg have "snd rg \<in> set (forEachChild q)" by (auto simp: forEachChild_def)
            with nodesOf_child(1) [of q n] qin have "snd rg \<in> set (nodesOf n)" by blast
            from inside [OF this rgx] typesApart_colon [OF hq(3) 3(2) rg tg]
            show ?thesis by (auto intro: outside_within)
          next
            case False
            from ordered_distinct [OF hn(1) [unfolded childrenInOrder_def] chn qn False]
            have "getEnd (snd rc) \<le> pos q \<or> getEnd q \<le> pos (snd rc)" .
            with aq have "outside a (snd rc)" by (auto simp: outside_def)
            from this xin show ?thesis by (rule outside_within)
          qed
        qed
      qed
      with nr cin show ?thesis by (simp add: reachedClear.simps [of x n] list_all_iff)
    qed
  qed
next
  case (2 x)
  show ?case by simp
next
  case (3 x rc cs)
  show ?case
  proof (intro impI)
    assume r: "reachedOutsideTypesIn x (rc # cs)"
      and h: "\<forall>m \<in> set (nodesOfChildren (rc # cs)).
                childrenInOrder m \<and> tokensInside m \<and> typesApart m"
      and k: "kind x \<noteq> Parameter"
    from r have "reachedOutsideTypes x (snd rc) \<or> reachedOutsideTypesIn x cs" by auto
    then show "reachedClearIn x (rc # cs)"
    proof
      assume a: "reachedOutsideTypes x (snd rc)"
      from r have "fst rc \<noteq> P_type \<and> fst rc \<noteq> P_typeParameters \<and> reachedOutsideTypes x (snd rc)
          \<or> reachedOutsideTypesIn x cs"
        by simp
      with 3 h k a show ?thesis by auto
    next
      assume "reachedOutsideTypesIn x cs"
      with 3(2) h k show ?thesis by auto
    qed
  qed
qed

lemma contract_clear:
  assumes "rangeContract root" and "reachedOutsideTypes x root" and "kind x \<noteq> Parameter"
  shows "reachedClear x root"
  using outside_types_clear(1) [of x root] assms
  by (simp add: rangeContract_def list_all_iff)

text \<open>The ranges of the edits do not depend on the text.\<close>

lemma wholeRange_text:
  "wholeRange src n = Some (Inr e) \<Longrightarrow>
   \<exists>e'. wholeRange src' n = Some (Inr e') \<and> editRange e' = editRange e"
  by (auto simp: wholeRange_def editRange_def split: if_splits option.splits)

lemma walk_text:
  "\<forall>es. walk src n = Inr es \<longrightarrow>
     (\<exists>es'. walk src' n = Inr es' \<and> map editRange es' = map editRange es)"
  "\<forall>es. walkChildren src cs = Inr es \<longrightarrow>
     (\<exists>es'. walkChildren src' cs = Inr es' \<and> map editRange es' = map editRange es)"
proof (induction src n and src cs rule: walk_walkChildren.induct)
  case (1 src n)
  show ?case
  proof (intro allI impI)
    fix es assume w: "walk src n = Inr es"
    show "\<exists>es'. walk src' n = Inr es' \<and> map editRange es' = map editRange es"
    proof (cases "wholeRange src n")
      case None
      then have nr: "\<not> returnsEarly n" by (simp add: wholeRange_None)
      with w obtain ds where ds: "walkChildren src (properties n) = Inr ds"
        and es: "es = variableEdits n @ functionEdits n @ ds"
        by (auto simp: walk_passes split: sum.splits)
      from 1 [OF None] ds obtain ds' where "walkChildren src' (properties n) = Inr ds'"
        and "map editRange ds' = map editRange ds"
        by blast
      with nr es show ?thesis by (simp add: walk_passes)
    next
      case (Some x)
      with w obtain ed where x: "x = Inr ed" and es: "es = [ed]"
        by (cases x) (auto simp: walk.simps)
      from wholeRange_text [of src n ed src'] Some x
      obtain e' where "wholeRange src' n = Some (Inr e')" and "editRange e' = editRange ed"
        by blast
      with es show ?thesis by (simp add: walk_returns)
    qed
  qed
next
  case (2 src)
  show ?case by simp
next
  case (3 src rc cs)
  show ?case
  proof (intro allI impI)
    fix es assume w: "walkChildren src (rc # cs) = Inr es"
    then obtain a b where a: "walk src (snd rc) = Inr a" and b: "walkChildren src cs = Inr b"
      and es: "es = a @ b"
      by (auto split: sum.splits)
    from 3(1) a obtain a' where "walk src' (snd rc) = Inr a'" "map editRange a' = map editRange a"
      by blast
    moreover from 3(2) [OF a] b obtain b' where "walkChildren src' cs = Inr b'"
      "map editRange b' = map editRange b"
      by blast
    ultimately show "\<exists>es'. walkChildren src' (rc # cs) = Inr es' \<and> map editRange es' = map editRange es"
      using es by simp
  qed
qed

section \<open>The inputs, walked\<close>

text \<open>
  The trees written out above keep the parser's range contract, and these are the
  edits the walker queues on them.
\<close>

lemma inputs_follow_contract:
  "rangesNested scenario2_tree \<and> rangesInText scenario2_text scenario2_tree"
  "rangesNested scenario3_tree \<and> rangesInText scenario3_text scenario3_tree"
  "rangesNested scenario4_tree \<and> rangesInText scenario4_text scenario4_tree"
  "rangesNested typedMarkup_tree \<and> rangesInText typedMarkup_text typedMarkup_tree"
  "rangesNested letInNamespace_tree \<and> rangesInText letInNamespace_text letInNamespace_tree"
  "rangesNested returnCast_tree \<and> rangesInText returnCast_text returnCast_tree"
  "rangesNested nameInType_tree \<and> rangesInText nameInType_text nameInType_tree"
  "rangesNested computed_tree \<and> rangesInText computed_text computed_tree"
  "rangesNested aliasInCast_tree \<and> rangesInText aliasInCast_text aliasInCast_tree"
  "rangesNested arrowInCast_tree \<and> rangesInText arrowInCast_text arrowInCast_tree"
  "rangesNested ambient_tree \<and> rangesInText ambient_text ambient_tree"
  "rangesNested method_tree \<and> rangesInText method_text method_tree"
  "rangesNested doubleCast_tree \<and> rangesInText doubleCast_text doubleCast_tree"
  "rangesNested markupInNamespace_tree \<and> rangesInText markupInNamespace_text markupInNamespace_tree"
  "rangesNested mixedExport_tree \<and> rangesInText mixedExport_text mixedExport_tree"
  "rangesNested plainImport_tree \<and> rangesInText plainImport_text plainImport_tree"
  "rangesNested mixedImport_tree \<and> rangesInText mixedImport_text mixedImport_tree"
  "rangesNested typeOnlyList_tree \<and> rangesInText typeOnlyList_text typeOnlyList_tree"
  "rangesNested markup_tree \<and> rangesInText markup_text markup_tree"
  "rangesNested commented_tree \<and> rangesInText commented_text commented_tree"
  by code_simp+

lemma walk_scenario2: "walk scenario2_text scenario2_tree = Inr [(7, 15, '''')]"
  by code_simp

lemma walk_scenario3:
  "walk scenario3_text scenario3_tree = Inr [(12, 15, ''''), (26, 34, ''''), (17, 25, '''')]"
  by code_simp

lemma walk_mixedExport: "walk mixedExport_text mixedExport_tree = Inr [(6, 23, ''{B, C}'')]"
  by code_simp

lemma visited_mixedExport: "mixedExport_namedExports \<in> set (visited mixedExport_tree)"
  by code_simp

lemma walk_mixedImport: "walk mixedImport_text mixedImport_tree = Inr [(6, 24, ''{Bar}'')]"
  by code_simp

lemma walk_typeOnlyList: "walk typeOnlyList_text typeOnlyList_tree = Inr [(6, 25, ''{}'')]"
  by code_simp

lemma walk_commented: "walk commented_text commented_tree = Inr [(6, 23, '''')]"
  by code_simp

lemma walk_typedMarkup:
  "walk typedMarkup_text typedMarkup_tree = Inr [(7, 10, ''''), (30, 33, '''')]"
  by code_simp

lemma inputs_keep_contract:
  "rangeContract scenario2_tree"
  "rangeContract typedMarkup_tree"
  "rangeContract scenario3_tree"
  "rangeContract scenario4_tree"
  "rangeContract computed_tree"
  "rangeContract aliasInCast_tree"
  "rangeContract arrowInCast_tree"
  "rangeContract ambient_tree"
  "rangeContract method_tree"
  "rangeContract doubleCast_tree"
  "rangeContract markupInNamespace_tree"
  "rangeContract mixedExport_tree"
  "rangeContract plainImport_tree"
  "rangeContract mixedImport_tree"
  "rangeContract typeOnlyList_tree"
  "rangeContract markup_tree"
  "rangeContract commented_tree"
  "rangeContract letInNamespace_tree"
  "rangeContract returnCast_tree"
  "rangeContract nameInType_tree"
  by code_simp+

text \<open>
  A name inside a deleted type goes with the type.  In \<^verbatim>\<open>let a:{[<b c:d/>]:e}\<close>
  the walker comes to the name \<^verbatim>\<open>c:d\<close>, but the way to it leads through the type
  of the declarator, and the name lies inside the range that the declarator
  deletes for its annotation.
\<close>

lemma name_in_deleted_type:
  "nameInType_name \<in> set (visited nameInType_tree) \<and> kind nameInType_name = JsxNamespacedName \<and>
   getText nameInType_text nameInType_name = ''c:d'' \<and>
   ownEdits nameInType_text nameInType_declarator = [(5, 20, '''')] \<and>
   \<not> outside (5, 20, '''') nameInType_name \<and>
   rangeContract nameInType_tree \<and>
   \<not> reachedOutsideTypes nameInType_name nameInType_tree \<and>
   walk nameInType_text nameInType_tree = Inr [(5, 20, '''')] \<and>
   transformToJs nameInType_tree nameInType_text = Some ''let a''"
  by code_simp

section \<open>Disjointness of the queued edits\<close>

text \<open>
  C1.  The rules that end in \<^verbatim>\<open>return\<close> queue one edit over the node's whole
  range and do not descend.  The rules for annotations (lines 65-111) do not
  return: after queuing the deletion of a declarator's annotation the walker goes
  on into the declarator's children (line 113), the deleted type among them.  In
  \<^verbatim>\<open>let a:{[b as c]:d}\<close> the type holds an as-expression.  The tree keeps the
  range contract; the walker queues the deletion \<open>(5, 18)\<close> of the annotation at
  the declarator, then visits the as-expression inside the deleted type and queues
  the replacement of \<open>(8, 14)\<close> by \<^verbatim>\<open>b\<close>.  The two ranges overlap: the edits of
  this walk are not pairwise disjoint.
\<close>

theorem edits_overlap_in_deleted_type:
  "rangeContract computed_tree \<and> rangesInText computed_text computed_tree \<and>
   computed_declarator \<in> set (visited computed_tree) \<and>
   ownEdits computed_text computed_declarator = [(5, 18, '''')] \<and>
   computed_as \<in> set (visited computed_tree) \<and>
   ownEdits computed_text computed_as = [(8, 14, ''b'')] \<and>
   walk computed_text computed_tree = Inr [(5, 18, ''''), (8, 14, ''b'')] \<and>
   \<not> disjoint (5, 18, '''') (8, 14, ''b'') \<and>
   \<not> pairwiseDisjoint [(5, 18, ''''), (8, 14, ''b'')]"
  by code_simp

section \<open>Whole declarations\<close>

text \<open>
  C2.  A declaration the walker reaches is overwritten whole (lines 20-23, 35-38
  and 55-63).  In \<^verbatim>\<open>(()=>{type A=B}) as C\<close> the type alias lies in the operand of
  an as-expression.  Lines 50-53 overwrite the as-expression with the text of its
  operand as it stands in the source and return: the walker does not visit the
  alias, no edit is queued for it, and \<^verbatim>\<open>type A=B\<close> is part of the replacement
  and of the text handed to the formatter.
\<close>

theorem alias_in_cast_operand_kept:
  "aliasInCast_alias \<in> set (nodesOf aliasInCast_tree) \<and> wholeDeclaration aliasInCast_alias \<and>
   aliasInCast_alias \<notin> set (visited aliasInCast_tree) \<and>
   getText aliasInCast_text aliasInCast_alias = ''type A=B'' \<and>
   walk aliasInCast_text aliasInCast_tree = Inr [(0, 21, ''(()=>{type A=B})'')] \<and>
   transformToJs aliasInCast_tree aliasInCast_text = Some ''(()=>{type A=B})''"
  by code_simp

section \<open>Named-import lists\<close>

text \<open>
  C3, as the code has it: for every named-import list the walker reaches, it queues
  one overwrite of the list's range \<open>[pos, end)\<close> whose replacement is an opening
  brace, the original texts of the specifiers that are not type-only, in their
  order, joined by commas, and a closing brace; if every specifier is type-only the
  replacement is \<^verbatim>\<open>{}\<close>.  An import declaration whose clause is not type-only gets
  no edit of its own: its edits are those of its children.
\<close>

theorem namedImports_replacement:
  assumes "n \<in> set (visited root)" and "isNamedImports n" and "walk src root = Inr es"
  shows "(pos n, getEnd n,
          ''{'' @ join '','' (map (getText src) (filter (\<lambda>e. \<not> isTypeOnly e) (elements n))) @ ''}'')
           \<in> set es \<and>
         ((\<forall>e \<in> set (elements n). isTypeOnly e) \<longrightarrow> (pos n, getEnd n, ''{}'') \<in> set es) \<and>
         (\<forall>d. isImportDeclaration d \<and> \<not> typeOnlyClause d \<longrightarrow>
            walk src d = walkChildren src (properties d))"
proof -
  have "walk src n = Inr [(pos n, getEnd n,
          ''{'' @ join '','' (map (getText src) (valueSpecifiers n)) @ ''}'')]"
    using assms(2) by (simp add: walk_returns wholeRange_namedImports)
  from visited_edits [OF assms(1) assms(3) this]
  have 1: "(pos n, getEnd n,
          ''{'' @ join '','' (map (getText src) (filter (\<lambda>e. \<not> isTypeOnly e) (elements n))) @ ''}'')
           \<in> set es"
    by (simp add: valueSpecifiers_def)
  have 2: "(pos n, getEnd n, ''{}'') \<in> set es" if "\<forall>e \<in> set (elements n). isTypeOnly e"
  proof -
    from that have "filter (\<lambda>e. \<not> isTypeOnly e) (elements n) = []" by (simp add: filter_empty_conv)
    with 1 show ?thesis by simp
  qed
  from 1 2 import_passes show ?thesis by blast
qed

text \<open>
  C3, witness: the named imports of \<^verbatim>\<open>import { type Foo, Bar } from "./foo";\<close>
  become \<^verbatim>\<open>{Bar}\<close>; those of \<^verbatim>\<open>import { type Component } from "solid-js";\<close>
  (sample 1) are all type-only and become \<^verbatim>\<open>{}\<close>, the import staying.
\<close>

theorem namedImports_replacement_witness:
  \<open>mixedImport_namedImports \<in> set (visited mixedImport_tree) \<and>
   isNamedImports mixedImport_namedImports \<and>
   walk mixedImport_text mixedImport_tree = Inr [(6, 24, ''{Bar}'')] \<and>
   (pos mixedImport_namedImports, getEnd mixedImport_namedImports,
    ''{'' @ join '','' (map (getText mixedImport_text)
       (filter (\<lambda>e. \<not> isTypeOnly e) (elements mixedImport_namedImports))) @ ''}'')
     \<in> set [(6, 24, ''{Bar}'')] \<and>
   transformToJs mixedImport_tree mixedImport_text = Some ''import{Bar} from "./foo";'' \<and>
   typeOnlyList_namedImports \<in> set (visited typeOnlyList_tree) \<and>
   isNamedImports typeOnlyList_namedImports \<and>
   walk typeOnlyList_text typeOnlyList_tree = Inr [(6, 25, ''{}'')] \<and>
   list_all isTypeOnly (elements typeOnlyList_namedImports) \<and>
   (pos typeOnlyList_namedImports, getEnd typeOnlyList_namedImports, ''{}'')
     \<in> set [(6, 25, ''{}'')] \<and>
   isImportDeclaration typeOnlyList_import \<and> \<not> typeOnlyClause typeOnlyList_import \<and>
   walk typeOnlyList_text typeOnlyList_import =
     walkChildren typeOnlyList_text (properties typeOnlyList_import) \<and>
   transformToJs typeOnlyList_tree typeOnlyList_text = Some ''import{} from "solid-js";''\<close>
proof -
  have v: "typeOnlyList_namedImports \<in> set (visited typeOnlyList_tree)" by code_simp
  have k: "isNamedImports typeOnlyList_namedImports" by code_simp
  have l: "list_all isTypeOnly (elements typeOnlyList_namedImports)" by code_simp
  then have a: "\<forall>e \<in> set (elements typeOnlyList_namedImports). isTypeOnly e"
    by (simp add: list_all_iff)
  have d: "isImportDeclaration typeOnlyList_import" "\<not> typeOnlyClause typeOnlyList_import"
    by code_simp+
  have t: \<open>transformToJs typeOnlyList_tree typeOnlyList_text = Some ''import{} from "solid-js";''\<close>
    by code_simp
  have v': "mixedImport_namedImports \<in> set (visited mixedImport_tree)" by code_simp
  have k': "isNamedImports mixedImport_namedImports" by code_simp
  have t': \<open>transformToJs mixedImport_tree mixedImport_text = Some ''import{Bar} from "./foo";''\<close>
    by code_simp
  note m = namedImports_replacement [OF v' k' walk_mixedImport, THEN conjunct1]
  note th = namedImports_replacement [OF v k walk_typeOnlyList]
  note c1 = th [THEN conjunct2, THEN conjunct1, THEN mp, OF a]
  note c2 = th [THEN conjunct2, THEN conjunct2, THEN spec, THEN mp, OF conjI [OF d]]
  show ?thesis
    by (intro conjI) (fact v' k' walk_mixedImport m t' v k walk_typeOnlyList l c1 d c2 t)+
qed

text \<open>
  C3 as stated speaks of every named-import list outside a type-only import
  declaration.  In \<^verbatim>\<open>declare module "m" { import { type A } from "x"; }\<close> the import
  is not type-only, but the walker deletes the whole module declaration and
  returns: no edit is queued for the list, and the import statement is not in the
  rendered text.
\<close>

theorem namedImports_in_module_counterexample:
  "ambient_namedImports \<in> set (nodesOf ambient_tree) \<and> isNamedImports ambient_namedImports \<and>
   ambient_import \<in> set (nodesOf ambient_tree) \<and> isImportDeclaration ambient_import \<and>
   \<not> typeOnlyClause ambient_import \<and>
   walk ambient_text ambient_tree = Inr [(0, 50, '''')] \<and>
   transformToJs ambient_tree ambient_text = Some ''''"
  by code_simp

section \<open>Functions\<close>

text \<open>
  C4, as the code has it: for every function declaration, function expression and
  arrow function the walker reaches, it queues the deletion from the \<open>pos\<close> of the
  first less-than token to the \<open>end\<close> of the first greater-than token among the
  function's children if the function has type parameters, the deletion from the
  \<open>pos\<close> of the function's first colon token to the \<open>end\<close> of its return type, and
  for each parameter the deletion from the \<open>pos\<close> of the parameter's first colon
  token to the \<open>end\<close> of the parameter's type.
\<close>

theorem function_annotations_deleted:
  assumes "f \<in> set (visited root)"
    and "isFunctionDeclaration f \<or> isFunctionExpression f \<or> isArrowFunction f"
    and "walk src root = Inr es"
  shows "(\<forall>lt gt. typeParameters f \<noteq> [] \<and> findChild LessThanToken f = Some lt \<and>
            findChild GreaterThanToken f = Some gt \<longrightarrow> (cpos lt, cend gt, ''''::string) \<in> set es) \<and>
         (\<forall>t c. type f = Some t \<and> findChild ColonToken f = Some c \<longrightarrow>
            (cpos c, getEnd t, ''''::string) \<in> set es) \<and>
         (\<forall>p \<in> set (parameters f). \<forall>t c. type p = Some t \<and> findChild ColonToken p = Some c \<longrightarrow>
            (cpos c, getEnd t, ''''::string) \<in> set es)"
proof -
  from assms(2) have nr: "\<not> returnsEarly f"
    by (auto simp: returnsEarly_def wholeDeclaration_def kind_defs)
  from assms(2) have fe: "functionEdits f =
      typeParameterList f @ colonToTypeEnd f @ concat (map colonToTypeEnd (parameters f))"
    by (simp add: functionEdits_def)
  from visited_own_edits [OF assms(1) assms(3) nr] fe
  have sub: "set (typeParameterList f) \<subseteq> set es" "set (colonToTypeEnd f) \<subseteq> set es"
    "\<forall>p \<in> set (parameters f). set (colonToTypeEnd p) \<subseteq> set es"
    by auto
  have 1: "(cpos lt, cend gt, ''''::string) \<in> set es"
    if "typeParameters f \<noteq> []" "findChild LessThanToken f = Some lt"
      "findChild GreaterThanToken f = Some gt" for lt gt
    using that sub(1) by (simp add: typeParameterList_def)
  have 2: "(cpos c, getEnd t, ''''::string) \<in> set es"
    if "type f = Some t" "findChild ColonToken f = Some c" for t c
    using that sub(2) by (simp add: colonToTypeEnd_found)
  have 3: "(cpos c, getEnd t, ''''::string) \<in> set es"
    if "p \<in> set (parameters f)" "type p = Some t" "findChild ColonToken p = Some c" for p t c
    using that sub(3) by (auto simp: colonToTypeEnd_found)
  from 1 2 3 show ?thesis by blast
qed

text \<open>
  C4, witness: \<^verbatim>\<open>function foo<T>(a: number): string { return String(a); }\<close> renders
  to \<^verbatim>\<open>function foo(a) { return String(a); }\<close>.
\<close>

theorem function_annotations_deleted_witness:
  "scenario3_function \<in> set (visited scenario3_tree) \<and> isFunctionDeclaration scenario3_function \<and>
   walk scenario3_text scenario3_tree = Inr [(12, 15, ''''), (26, 34, ''''), (17, 25, '''')] \<and>
   typeParameters scenario3_function \<noteq> [] \<and>
   findChild LessThanToken scenario3_function = Some (Child LessThanToken 12 13) \<and>
   findChild GreaterThanToken scenario3_function = Some (Child GreaterThanToken 14 15) \<and>
   (12::nat, 15::nat, ''''::string) \<in> set [(12, 15, ''''), (26, 34, ''''), (17, 25, '''')] \<and>
   type scenario3_function = Some (Node (OtherKind ''StringKeyword'') 27 28 34 False [] []) \<and>
   findChild ColonToken scenario3_function = Some (Child ColonToken 26 27) \<and>
   (26::nat, 34::nat, ''''::string) \<in> set [(12, 15, ''''), (26, 34, ''''), (17, 25, '''')] \<and>
   parameters scenario3_function = [scenario3_parameter] \<and>
   type scenario3_parameter = Some (Node (OtherKind ''NumberKeyword'') 18 19 25 False [] []) \<and>
   findChild ColonToken scenario3_parameter = Some (Child ColonToken 17 18) \<and>
   (17::nat, 25::nat, ''''::string) \<in> set [(12, 15, ''''), (26, 34, ''''), (17, 25, '''')] \<and>
   transformToJs scenario3_tree scenario3_text = Some ''function foo(a) { return String(a); }''"
proof -
  have v: "scenario3_function \<in> set (visited scenario3_tree)" by code_simp
  have k: "isFunctionDeclaration scenario3_function" by code_simp
  have tp: "typeParameters scenario3_function \<noteq> []" by code_simp
  have lt: "findChild LessThanToken scenario3_function = Some (Child LessThanToken 12 13)"
    by code_simp
  have gt: "findChild GreaterThanToken scenario3_function = Some (Child GreaterThanToken 14 15)"
    by code_simp
  have t: "type scenario3_function = Some (Node (OtherKind ''StringKeyword'') 27 28 34 False [] [])"
    by code_simp
  have c: "findChild ColonToken scenario3_function = Some (Child ColonToken 26 27)"
    by code_simp
  have ps: "parameters scenario3_function = [scenario3_parameter]" by code_simp
  have pt: "type scenario3_parameter = Some (Node (OtherKind ''NumberKeyword'') 18 19 25 False [] [])"
    by code_simp
  have pc: "findChild ColonToken scenario3_parameter = Some (Child ColonToken 17 18)"
    by code_simp
  have r: "transformToJs scenario3_tree scenario3_text = Some ''function foo(a) { return String(a); }''"
    by code_simp
  note th = function_annotations_deleted [OF v disjI1 [OF k] walk_scenario3]
  from th tp lt gt have 1: "(12::nat, 15::nat, ''''::string) \<in> set [(12, 15, ''''), (26, 34, ''''), (17, 25, '''')]"
    by fastforce
  from th t c have 2: "(26::nat, 34::nat, ''''::string) \<in> set [(12, 15, ''''), (26, 34, ''''), (17, 25, '''')]"
    by fastforce
  from th ps pt pc have 3: "(17::nat, 25::nat, ''''::string) \<in> set [(12, 15, ''''), (26, 34, ''''), (17, 25, '''')]"
    by fastforce
  from v k walk_scenario3 tp lt gt 1 t c 2 ps pt pc 3 r show ?thesis by blast
qed

text \<open>
  C4 as stated includes methods and speaks of every function in the tree.  The
  walker has no rule for method declarations: on \<^verbatim>\<open>class C{m<T>(a:T):T{return a}}\<close>
  it queues no edit, although the three ranges are there to be found.  And in
  \<^verbatim>\<open>((a:B)=>a) as C\<close> the arrow function is the operand of an as-expression, which
  the walker replaces by the operand's text before returning: the parameter's
  annotation is in the rendered output.
\<close>

theorem method_counterexample:
  "method_method \<in> set (visited method_tree) \<and> kind method_method = MethodDeclaration \<and>
   typeParameterList method_method = [(9, 12, '''')] \<and>
   colonToTypeEnd method_method = [(17, 19, '''')] \<and>
   parameters method_method = [method_parameter] \<and>
   colonToTypeEnd method_parameter = [(14, 16, '''')] \<and>
   walk method_text method_tree = Inr [] \<and>
   transformToJs method_tree method_text = Some ''class C{m<T>(a:T):T{return a}}'' \<and>
   arrowInCast_arrow \<in> set (nodesOf arrowInCast_tree) \<and> isArrowFunction arrowInCast_arrow \<and>
   parameters arrowInCast_arrow = [arrowInCast_parameter] \<and>
   colonToTypeEnd arrowInCast_parameter = [(3, 5, '''')] \<and>
   walk arrowInCast_text arrowInCast_tree = Inr [(0, 15, ''((a:B)=>a)'')] \<and>
   transformToJs arrowInCast_tree arrowInCast_text = Some ''((a:B)=>a)''"
  by code_simp

section \<open>Variable declarators\<close>

text \<open>
  C5, as the code has it: for every variable declarator the walker reaches that has
  a type and a colon token among its children, the one edit the walker queues for
  the declarator itself is the deletion of the range from the colon's \<open>pos\<close> to the
  type's \<open>end\<close>.  If the walk comes to the declarator outside the types, in a tree
  that keeps the range contract, every other edit of the walk lies outside the
  declarator or inside a child of the declarator that is not quiet; so a slice of
  the declarator that does not meet the annotation and meets no child but quiet
  ones (the name, the initializer, the punctuation between them) is in the
  rendered text byte for byte.  And \<^verbatim>\<open>const a: number = 123;\<close> renders to
  \<^verbatim>\<open>const a = 123;\<close>.
\<close>

theorem declarator_annotation_deleted:
  assumes "n \<in> set (visited root)" and "isVariableDeclaration n"
    and "type n = Some t" and "findChild ColonToken n = Some c" and "walk src root = Inr es"
  shows "variableEdits n @ functionEdits n = [(cpos c, getEnd t, '''')] \<and>
         (cpos c, getEnd t, ''''::string) \<in> set es \<and>
         (rangeContract root \<and> reachedOutsideTypes n root \<longrightarrow>
            (\<forall>e \<in> set es. e = (cpos c, getEnd t, '''') \<or> outside e n \<or>
               (\<exists>ch \<in> set (forEachChild n). \<not> quiet ch \<and> pos ch \<le> fst e \<and> fst (snd e) \<le> getEnd ch)) \<and>
            (\<forall>a b out. toString src es = Some out \<and> pos n \<le> a \<and> a \<le> b \<and> b \<le> getEnd n \<and>
               b \<le> length src \<and> (b \<le> cpos c \<or> getEnd t \<le> a) \<and>
               list_all (\<lambda>ch. quiet ch \<or> b \<le> pos ch \<or> getEnd ch \<le> a) (forEachChild n) \<longrightarrow>
               (\<exists>k. take (b - a) (drop k out) = take (b - a) (drop a src)))) \<and>
         transformToJs scenario2_tree scenario2_text = Some ''const a = 123;''"
proof -
  from assms(2) have nr: "\<not> returnsEarly n"
    by (auto simp: returnsEarly_def wholeDeclaration_def kind_defs)
  from assms(2) have "functionEdits n = []"
    by (simp add: annotation_kinds kind_defs)
  with assms(2,3,4) have own: "variableEdits n @ functionEdits n = [(cpos c, getEnd t, '''')]"
    by (simp add: variableEdits_def colonToTypeEnd_found)
  from visited_own_edits [OF assms(1) assms(5) nr] own
  have mem: "(cpos c, getEnd t, ''''::string) \<in> set es"
    by simp
  have frame: "\<forall>e \<in> set es. e = (cpos c, getEnd t, '''') \<or> outside e n \<or>
               (\<exists>ch \<in> set (forEachChild n). \<not> quiet ch \<and> pos ch \<le> fst e \<and> fst (snd e) \<le> getEnd ch)"
    if rc: "rangeContract root" and ro: "reachedOutsideTypes n root"
  proof
    fix e assume e: "e \<in> set es"
    from assms(2) have "kind n \<noteq> Parameter" by (simp add: kind_defs)
    with rc ro have r: "reachedClear n root" by (rule contract_clear)
    from rc have rn: "rangesNested root" and tn: "tokensNested root"
      by (simp_all add: rangeContract_parts)
    have root: "root \<in> set (nodesOf root)" by (simp add: nodesOf.simps [of root])
    from walk_frame(1) [of n root src] r contract_below [OF rn tn root] assms(5)
    obtain ex where ex: "walk src n = Inr ex" and fr: "\<forall>e \<in> set es. e \<in> set ex \<or> outside e n"
      by blast
    from ex nr own obtain ds where ds: "walkChildren src (properties n) = Inr ds"
      and exd: "ex = (cpos c, getEnd t, '''') # ds"
      by (auto simp: walk_passes split: sum.splits)
    from fr e exd have "e = (cpos c, getEnd t, '''') \<or> outside e n \<or> e \<in> set ds" by auto
    moreover have "\<exists>ch \<in> set (forEachChild n). \<not> quiet ch \<and> pos ch \<le> fst e \<and> fst (snd e) \<le> getEnd ch"
      if "e \<in> set ds"
    proof -
      from walkChildren_member [OF ds that] obtain ch cs where ch: "ch \<in> set (forEachChild n)"
        and cs: "walk src ch = Inr cs" and ecs: "e \<in> set cs"
        by (auto simp: forEachChild_def)
      from cs ecs have nq: "\<not> quiet ch" using quiet_walk [of ch src] by auto
      from assms(1) visited_subset_nodesOf(1) [of root] have "n \<in> set (nodesOf root)" by blast
      with nodesOf_child(1) [of n root] ch have "ch \<in> set (nodesOf root)" by blast
      from walk_within(1) [of ch src] contract_below [OF rn tn this] cs
      have "within (pos ch) (getEnd ch) cs" by blast
      with ecs have "pos ch \<le> fst e \<and> fst (snd e) \<le> getEnd ch" by (simp add: within_def)
      with ch nq show ?thesis by blast
    qed
    ultimately show "e = (cpos c, getEnd t, '''') \<or> outside e n \<or>
               (\<exists>ch \<in> set (forEachChild n). \<not> quiet ch \<and> pos ch \<le> fst e \<and> fst (snd e) \<le> getEnd ch)"
      by blast
  qed
  have kept: "\<exists>k. take (b - a) (drop k out) = take (b - a) (drop a src)"
    if r: "rangeContract root" "reachedOutsideTypes n root"
      and o: "toString src es = Some out" and ab: "pos n \<le> a" "a \<le> b" "b \<le> getEnd n" "b \<le> length src"
      and ann: "b \<le> cpos c \<or> getEnd t \<le> a"
      and chs: "list_all (\<lambda>ch. quiet ch \<or> b \<le> pos ch \<or> getEnd ch \<le> a) (forEachChild n)"
    for a b out
  proof -
    have "fst (snd e) \<le> a \<or> b \<le> fst e" if e: "e \<in> set es" for e
    proof -
      from frame [OF r] e have "e = (cpos c, getEnd t, '''') \<or> outside e n \<or>
          (\<exists>ch \<in> set (forEachChild n). \<not> quiet ch \<and> pos ch \<le> fst e \<and> fst (snd e) \<le> getEnd ch)"
        by blast
      then show ?thesis
      proof (elim disjE)
        assume "e = (cpos c, getEnd t, '''')"
        with ann show ?thesis by auto
      next
        assume "outside e n"
        with ab show ?thesis by (auto simp: outside_def)
      next
        assume "\<exists>ch \<in> set (forEachChild n). \<not> quiet ch \<and> pos ch \<le> fst e \<and> fst (snd e) \<le> getEnd ch"
        then obtain ch where "ch \<in> set (forEachChild n)" "\<not> quiet ch"
          "pos ch \<le> fst e" "fst (snd e) \<le> getEnd ch"
          by blast
        with chs show ?thesis by (auto simp: list_all_iff)
      qed
    qed
    then have "\<forall>e \<in> set es. fst (snd e) \<le> a \<or> b \<le> fst e" by blast
    from toString_retains [OF o ab(2) ab(4) this] show ?thesis .
  qed
  have "transformToJs scenario2_tree scenario2_text = Some ''const a = 123;''"
    by code_simp
  with own mem frame kept show ?thesis by blast
qed

text \<open>
  C5, witness: the declarator of \<^verbatim>\<open>const a: number = 123;\<close>, whose name \<^verbatim>\<open> a\<close>
  and initializer \<^verbatim>\<open> = 123\<close> are in the rendered text; and the declarator of
  \<^verbatim>\<open>const v: V = <div on:click={(e: E) => e}></div>;\<close>, whose name \<^verbatim>\<open> v\<close> is in
  the rendered text although the walker rewrites the initializer.
\<close>

theorem declarator_annotation_deleted_witness:
  "scenario2_declarator \<in> set (visited scenario2_tree) \<and>
   isVariableDeclaration scenario2_declarator \<and>
   type scenario2_declarator = Some (Node (OtherKind ''NumberKeyword'') 8 9 15 False [] []) \<and>
   findChild ColonToken scenario2_declarator = Some (Child ColonToken 7 8) \<and>
   walk scenario2_text scenario2_tree = Inr [(7, 15, '''')] \<and>
   variableEdits scenario2_declarator @ functionEdits scenario2_declarator = [(7, 15, '''')] \<and>
   (7::nat, 15::nat, ''''::string) \<in> set [(7, 15, '''')] \<and>
   rangeContract scenario2_tree \<and> reachedOutsideTypes scenario2_declarator scenario2_tree \<and>
   toString scenario2_text [(7, 15, '''')] = Some ''const a = 123;'' \<and>
   pos scenario2_declarator = 5 \<and> getEnd scenario2_declarator = 21 \<and>
   list_all quiet (forEachChild scenario2_declarator) \<and>
   take (7 - 5) (drop 5 scenario2_text) = '' a'' \<and>
   (\<exists>k. take (7 - 5) (drop k ''const a = 123;'') = take (7 - 5) (drop 5 scenario2_text)) \<and>
   take (21 - 15) (drop 15 scenario2_text) = '' = 123'' \<and>
   (\<exists>k. take (21 - 15) (drop k ''const a = 123;'') = take (21 - 15) (drop 15 scenario2_text)) \<and>
   transformToJs scenario2_tree scenario2_text = Some ''const a = 123;'' \<and>
   typedMarkup_declarator \<in> set (visited typedMarkup_tree) \<and>
   rangeContract typedMarkup_tree \<and>
   reachedOutsideTypes typedMarkup_declarator typedMarkup_tree \<and>
   walk typedMarkup_text typedMarkup_tree = Inr [(7, 10, ''''), (30, 33, '''')] \<and>
   variableEdits typedMarkup_declarator @ functionEdits typedMarkup_declarator = [(7, 10, '''')] \<and>
   toString typedMarkup_text [(7, 10, ''''), (30, 33, '''')] =
     Some ''const v = <div on:click={(e) => e}></div>;'' \<and>
   list_all (\<lambda>ch. quiet ch \<or> 7 \<le> pos ch \<or> getEnd ch \<le> 5) (forEachChild typedMarkup_declarator) \<and>
   take (7 - 5) (drop 5 typedMarkup_text) = '' v'' \<and>
   (\<exists>k. take (7 - 5) (drop k ''const v = <div on:click={(e) => e}></div>;'') =
        take (7 - 5) (drop 5 typedMarkup_text))"
proof -
  have v: "scenario2_declarator \<in> set (visited scenario2_tree)" by code_simp
  have k: "isVariableDeclaration scenario2_declarator" by code_simp
  have t: "type scenario2_declarator = Some (Node (OtherKind ''NumberKeyword'') 8 9 15 False [] [])"
    by code_simp
  have c: "findChild ColonToken scenario2_declarator = Some (Child ColonToken 7 8)"
    by code_simp
  note rc = inputs_keep_contract(1)
  have r: "reachedOutsideTypes scenario2_declarator scenario2_tree" by code_simp
  have o: "toString scenario2_text [(7, 15, '''')] = Some ''const a = 123;''" by code_simp
  have p: "pos scenario2_declarator = 5" "getEnd scenario2_declarator = 21" by code_simp+
  have q: "list_all quiet (forEachChild scenario2_declarator)" by code_simp
  have s1: "take (7 - 5) (drop 5 scenario2_text) = '' a''" by code_simp
  have s2: "take (21 - 15) (drop 15 scenario2_text) = '' = 123''" by code_simp
  note th = declarator_annotation_deleted [OF v k t c walk_scenario2]
  note c1 = th [THEN conjunct1, simplified child.sel node.sel]
  note fr = th [THEN conjunct2, THEN conjunct2, THEN conjunct1, THEN mp,
      OF conjI [OF rc r], THEN conjunct2]
  have h1: "toString scenario2_text [(7, 15, '''')] = Some ''const a = 123;'' \<and>
      pos scenario2_declarator \<le> 5 \<and> (5::nat) \<le> 7 \<and> 7 \<le> getEnd scenario2_declarator \<and>
      7 \<le> length scenario2_text \<and>
      (7 \<le> cpos (Child ColonToken 7 8) \<or>
       getEnd (Node (OtherKind ''NumberKeyword'') 8 9 15 False [] []) \<le> 5) \<and>
      list_all (\<lambda>ch. quiet ch \<or> 7 \<le> pos ch \<or> getEnd ch \<le> 5) (forEachChild scenario2_declarator)"
    using o p q by (simp add: scenario2_text_def list_all_iff)
  have h2: "toString scenario2_text [(7, 15, '''')] = Some ''const a = 123;'' \<and>
      pos scenario2_declarator \<le> 15 \<and> (15::nat) \<le> 21 \<and> 21 \<le> getEnd scenario2_declarator \<and>
      21 \<le> length scenario2_text \<and>
      (21 \<le> cpos (Child ColonToken 7 8) \<or>
       getEnd (Node (OtherKind ''NumberKeyword'') 8 9 15 False [] []) \<le> 15) \<and>
      list_all (\<lambda>ch. quiet ch \<or> 21 \<le> pos ch \<or> getEnd ch \<le> 15) (forEachChild scenario2_declarator)"
    using o p q by (simp add: scenario2_text_def list_all_iff)
  note k1 = fr [THEN spec, THEN spec, THEN spec, THEN mp, OF h1]
  note k2 = fr [THEN spec, THEN spec, THEN spec, THEN mp, OF h2]
  note c5 = th [THEN conjunct2, THEN conjunct2, THEN conjunct2]
  have m: "(7::nat, 15::nat, ''''::string) \<in> set [(7, 15, '''')]" by simp
  have v': "typedMarkup_declarator \<in> set (visited typedMarkup_tree)" by code_simp
  have k': "isVariableDeclaration typedMarkup_declarator" by code_simp
  have t': "type typedMarkup_declarator =
      Some (Node (OtherKind ''TypeReference'') 8 9 10 False []
        [(P_other, Node (OtherKind ''Identifier'') 8 9 10 False [] [])])"
    by code_simp
  have c': "findChild ColonToken typedMarkup_declarator = Some (Child ColonToken 7 8)"
    by code_simp
  note rc' = inputs_keep_contract(2)
  have r': "reachedOutsideTypes typedMarkup_declarator typedMarkup_tree" by code_simp
  have o': "toString typedMarkup_text [(7, 10, ''''), (30, 33, '''')] =
      Some ''const v = <div on:click={(e) => e}></div>;''"
    by code_simp
  have q': "list_all (\<lambda>ch. quiet ch \<or> 7 \<le> pos ch \<or> getEnd ch \<le> 5) (forEachChild typedMarkup_declarator)"
    by code_simp
  have s3: "take (7 - 5) (drop 5 typedMarkup_text) = '' v''" by code_simp
  note th' = declarator_annotation_deleted [OF v' k' t' c' walk_typedMarkup]
  note c1' = th' [THEN conjunct1, simplified child.sel node.sel]
  note fr' = th' [THEN conjunct2, THEN conjunct2, THEN conjunct1, THEN mp,
      OF conjI [OF rc' r'], THEN conjunct2]
  have h3: "toString typedMarkup_text [(7, 10, ''''), (30, 33, '''')] =
        Some ''const v = <div on:click={(e) => e}></div>;'' \<and>
      pos typedMarkup_declarator \<le> 5 \<and> (5::nat) \<le> 7 \<and> 7 \<le> getEnd typedMarkup_declarator \<and>
      7 \<le> length typedMarkup_text \<and>
      (7 \<le> cpos (Child ColonToken 7 8) \<or>
       getEnd (Node (OtherKind ''TypeReference'') 8 9 10 False []
         [(P_other, Node (OtherKind ''Identifier'') 8 9 10 False [] [])]) \<le> 5) \<and>
      list_all (\<lambda>ch. quiet ch \<or> 7 \<le> pos ch \<or> getEnd ch \<le> 5) (forEachChild typedMarkup_declarator)"
    using o' q' by (simp add: typedMarkup_text_def typedMarkup_declarator_def)
  note k3 = fr' [THEN spec, THEN spec, THEN spec, THEN mp, OF h3]
  show ?thesis
    by (intro conjI)
      (fact v k t c walk_scenario2 c1 m rc r o p q s1 k1 s2 k2 c5
        v' rc' r' walk_typedMarkup c1' o' q' s3 k3)+
qed

text \<open>
  C5 as stated speaks of every annotated declarator.  In \<^verbatim>\<open>namespace N{let a:B=1}\<close>
  the declarator lies inside a namespace, which the walker deletes whole (lines
  55-63) before it returns: the deletion \<open>(17, 19)\<close> of the annotation is not
  queued, and the name and the initializer go with the namespace.
\<close>

theorem declarator_in_namespace_counterexample:
  "letInNamespace_declarator \<in> set (nodesOf letInNamespace_tree) \<and>
   isVariableDeclaration letInNamespace_declarator \<and>
   letInNamespace_declarator \<notin> set (visited letInNamespace_tree) \<and>
   isModuleDeclaration letInNamespace_module \<and>
   colonToTypeEnd letInNamespace_declarator = [(17, 19, '''')] \<and>
   getText letInNamespace_text letInNamespace_declarator = ''a:B=1'' \<and>
   walk letInNamespace_text letInNamespace_tree = Inr [(0, 22, '''')] \<and>
   (17, 19, '''') \<notin> set [(0::nat, 22::nat, ''''::string)] \<and>
   transformToJs letInNamespace_tree letInNamespace_text = Some ''''"
  by code_simp

section \<open>Type assertions\<close>

text \<open>
  C6.  Lines 50-53 overwrite the range that starts at \<^verbatim>\<open>node.pos\<close>, the trivia
  before the first token included, with \<^verbatim>\<open>node.expression.getText()\<close>, which
  starts at the operand's first token: what stood between \<open>pos\<close> and the first
  token is lost.  In \<^verbatim>\<open>function foo(a) { return a as T; }\<close> the as-expression has
  \<open>pos\<close> 24 and its first token starts at 25; the edit \<open>(24, 31)\<close> replaces
  \<^verbatim>\<open> a as T\<close>, the space included, by \<^verbatim>\<open>a\<close>, and the text handed to the
  formatter is \<^verbatim>\<open>function foo(a) { returna; }\<close>.  In scenario 4 the same loss
  does no harm: \<^verbatim>\<open>const b = "123" as number;\<close> becomes \<^verbatim>\<open>const b ="123";\<close>.
  And the rule returns with the operand's text as it stands in the source: in
  \<^verbatim>\<open>x as unknown as T\<close> the inner assertion is the operand of the outer one, the
  walker does not visit it, and the text handed to the formatter is
  \<^verbatim>\<open>x as unknown\<close>.
\<close>

theorem asExpression_text_lost:
  \<open>returnCast_as \<in> set (visited returnCast_tree) \<and> isAsExpression returnCast_as \<and>
   pos returnCast_as = 24 \<and> getStart returnCast_as = 25 \<and> getEnd returnCast_as = 31 \<and>
   substring returnCast_text 24 31 = '' a as T'' \<and>
   walk returnCast_text returnCast_tree = Inr [(24, 31, ''a'')] \<and>
   transformToJs returnCast_tree returnCast_text = Some ''function foo(a) { returna; }'' \<and>
   walk scenario4_text scenario4_tree = Inr [(9, 25, ''"123"'')] \<and>
   transformToJs scenario4_tree scenario4_text = Some ''const b ="123";'' \<and>
   doubleCast_inner \<in> set (nodesOf doubleCast_tree) \<and> isAsExpression doubleCast_inner \<and>
   doubleCast_inner \<notin> set (visited doubleCast_tree) \<and>
   getText doubleCast_text doubleCast_inner = ''x as unknown'' \<and>
   walk doubleCast_text doubleCast_tree = Inr [(0, 17, ''x as unknown'')] \<and>
   transformToJs doubleCast_tree doubleCast_text = Some ''x as unknown''\<close>
  by code_simp

section \<open>Markup attribute names\<close>

text \<open>
  C7, as the code has it.  Every edit of a walk is queued at a visited node that
  is neither a markup attribute nor a namespaced attribute name: it is the whole
  range of a node matched by a returning rule, or it is queued at a variable
  declarator or at a function declaration, function expression or arrow function
  and is the deletion of the function's type-parameter list or a deletion from
  the \<open>pos\<close> of the colon token found among the children of the declarator, the
  function or one of its parameters to the \<open>end\<close> of that node's declared type.
  The ranges of the edits are the same whatever the text is: the walker reads
  them off the tree.  And in a tree that keeps the range contract, no edit of the
  walk overlaps a namespaced attribute name that the walk comes to outside the
  types and whose identifiers are quiet: its text, colon included, is in the
  rendered text byte for byte.
\<close>

theorem markup_names_retained:
  assumes "walk src root = Inr es"
  shows "(\<forall>e \<in> set es. \<exists>m \<in> set (visited root).
            kind m \<noteq> JsxAttribute \<and> kind m \<noteq> JsxNamespacedName \<and>
            (returnsEarly m \<and> fst e = pos m \<and> fst (snd e) = getEnd m
             \<or> kind m = VariableDeclaration \<and> colonOfTypedNode m e
             \<or> (kind m = FunctionDeclaration \<or> kind m = FunctionExpression \<or> kind m = ArrowFunction) \<and>
               (e \<in> set (typeParameterList m) \<or> colonOfTypedNode m e \<or>
                (\<exists>p \<in> set (parameters m). colonOfTypedNode p e)))) \<and>
         (\<forall>src'. \<exists>es'. walk src' root = Inr es' \<and> map editRange es' = map editRange es) \<and>
         (\<forall>x. rangeContract root \<and> reachedOutsideTypes x root \<and> kind x = JsxNamespacedName \<and>
              list_all quiet (forEachChild x) \<longrightarrow>
            (\<forall>e \<in> set es. outside e x) \<and>
            (\<forall>out. toString src es = Some out \<and> rangeInText src x \<longrightarrow>
               (\<exists>k. take (getEnd x - getStart x) (drop k out) = getText src x)))"
proof -
  have origin: "\<exists>m \<in> set (visited root).
            kind m \<noteq> JsxAttribute \<and> kind m \<noteq> JsxNamespacedName \<and>
            (returnsEarly m \<and> fst e = pos m \<and> fst (snd e) = getEnd m
             \<or> kind m = VariableDeclaration \<and> colonOfTypedNode m e
             \<or> (kind m = FunctionDeclaration \<or> kind m = FunctionExpression \<or> kind m = ArrowFunction) \<and>
               (e \<in> set (typeParameterList m) \<or> colonOfTypedNode m e \<or>
                (\<exists>p \<in> set (parameters m). colonOfTypedNode p e)))"
    if "e \<in> set es" for e
  proof -
    from that walk_concat(1) [of src root es] assms
    obtain m where m: "m \<in> set (visited root)" and e: "e \<in> set (ownEdits src m)"
      by auto
    from ownEdits_origin [OF e] m show ?thesis by blast
  qed
  have ranges: "\<exists>es'. walk src' root = Inr es' \<and> map editRange es' = map editRange es" for src'
    using walk_text(1) [of src root src'] assms by blast
  have apart: "\<forall>e \<in> set es. outside e x"
    if c: "rangeContract root" and r: "reachedOutsideTypes x root"
      and k: "kind x = JsxNamespacedName" and q: "list_all quiet (forEachChild x)" for x
  proof -
    from k q have "quiet x" by (rule namespacedName_quiet)
    then have w: "walk src x = Inr []" by (rule quiet_walk)
    from k have "kind x \<noteq> Parameter" by simp
    with c r have clear: "reachedClear x root" by (rule contract_clear)
    from c have rn: "rangesNested root" and tn: "tokensNested root"
      by (simp_all add: rangeContract_parts)
    have "root \<in> set (nodesOf root)" by (simp add: nodesOf.simps [of root])
    from walk_frame(1) [of x root src] clear contract_below [OF rn tn this] assms
    obtain ex where "walk src x = Inr ex" and "\<forall>e \<in> set es. e \<in> set ex \<or> outside e x"
      by blast
    with w show ?thesis by auto
  qed
  have kept: "\<exists>k. take (getEnd x - getStart x) (drop k out) = getText src x"
    if c: "rangeContract root" "reachedOutsideTypes x root" "kind x = JsxNamespacedName"
      "list_all quiet (forEachChild x)"
      and o: "toString src es = Some out" and i: "rangeInText src x" for x out
  proof -
    from i have r: "pos x \<le> getStart x" "getStart x \<le> getEnd x" "getEnd x \<le> length src"
      by (simp_all add: rangeInText_def)
    from apart [OF c] r(1) have "\<forall>e \<in> set es. fst (snd e) \<le> getStart x \<or> getEnd x \<le> fst e"
      by (force simp: outside_def)
    from toString_retains [OF o r(2,3) this] r(2) show ?thesis
      by (simp add: getText_def substring_take_drop)
  qed
  from origin ranges apart kept show ?thesis by blast
qed

text \<open>
  C7, witness: in \<^verbatim>\<open>const v: V = <div on:click={(e: E) => e}></div>;\<close> the walker
  deletes the annotation of the declarator before the attribute name and the
  annotation of the parameter after it; the ranges are the same on a text without
  a colon; and \<^verbatim>\<open>on:click\<close> is in the rendered text.
\<close>

theorem markup_names_retained_witness:
  "walk typedMarkup_text typedMarkup_tree = Inr [(7, 10, ''''), (30, 33, '''')] \<and>
   (\<exists>m \<in> set (visited typedMarkup_tree).
       kind m \<noteq> JsxAttribute \<and> kind m \<noteq> JsxNamespacedName \<and>
       (returnsEarly m \<and> fst (30::nat, 33::nat, ''''::string) = pos m \<and>
          fst (snd (30::nat, 33::nat, ''''::string)) = getEnd m
        \<or> kind m = VariableDeclaration \<and> colonOfTypedNode m (30, 33, '''')
        \<or> (kind m = FunctionDeclaration \<or> kind m = FunctionExpression \<or> kind m = ArrowFunction) \<and>
          ((30, 33, '''') \<in> set (typeParameterList m) \<or> colonOfTypedNode m (30, 33, '''') \<or>
           (\<exists>p \<in> set (parameters m). colonOfTypedNode p (30, 33, ''''))))) \<and>
   kind typedMarkup_arrow = ArrowFunction \<and>
   typedMarkup_parameter \<in> set (parameters typedMarkup_arrow) \<and>
   colonOfTypedNode typedMarkup_parameter (30, 33, '''') \<and>
   (\<exists>es'. walk ''const v  V = <div on click={(e  E) => e}></div>;'' typedMarkup_tree = Inr es' \<and>
      map editRange es' = map editRange [(7, 10, ''''), (30, 33, '''')]) \<and>
   rangeContract typedMarkup_tree \<and>
   reachedOutsideTypes typedMarkup_name typedMarkup_tree \<and>
   kind typedMarkup_name = JsxNamespacedName \<and>
   list_all quiet (forEachChild typedMarkup_name) \<and>
   list_all (\<lambda>e. outside e typedMarkup_name) [(7, 10, ''''), (30, 33, '''')] \<and>
   toString typedMarkup_text [(7, 10, ''''), (30, 33, '''')] =
     Some ''const v = <div on:click={(e) => e}></div>;'' \<and>
   rangeInText typedMarkup_text typedMarkup_name \<and>
   getText typedMarkup_text typedMarkup_name = ''on:click'' \<and>
   (\<exists>k. take (getEnd typedMarkup_name - getStart typedMarkup_name)
           (drop k ''const v = <div on:click={(e) => e}></div>;'') =
        getText typedMarkup_text typedMarkup_name)"
proof -
  note th = markup_names_retained [OF walk_typedMarkup]
  have mem: "(30, 33, '''') \<in> set [(7::nat, 10::nat, ''''::string), (30, 33, '''')]" by simp
  note c1 = th [THEN conjunct1, rule_format, OF mem]
  have k: "kind typedMarkup_arrow = ArrowFunction" by code_simp
  have p: "typedMarkup_parameter \<in> set (parameters typedMarkup_arrow)" by code_simp
  have c: "colonOfTypedNode typedMarkup_parameter (30, 33, '''')" by code_simp
  note c2 = th [THEN conjunct2, THEN conjunct1, THEN spec,
      of "''const v  V = <div on click={(e  E) => e}></div>;''"]
  note rc = inputs_keep_contract(2)
  have r: "reachedOutsideTypes typedMarkup_name typedMarkup_tree" by code_simp
  have kn: "kind typedMarkup_name = JsxNamespacedName" by code_simp
  have q: "list_all quiet (forEachChild typedMarkup_name)" by code_simp
  note c3 = th [THEN conjunct2, THEN conjunct2, THEN spec, THEN mp,
      OF conjI [OF rc conjI [OF r conjI [OF kn q]]]]
  from c3 [THEN conjunct1]
  have o: "list_all (\<lambda>e. outside e typedMarkup_name) [(7, 10, ''''), (30, 33, '''')]"
    by (simp add: list_all_iff)
  have t: "toString typedMarkup_text [(7, 10, ''''), (30, 33, '''')] =
     Some ''const v = <div on:click={(e) => e}></div>;''"
    by code_simp
  have i: "rangeInText typedMarkup_text typedMarkup_name" by code_simp
  have g: "getText typedMarkup_text typedMarkup_name = ''on:click''" by code_simp
  note c4 = c3 [THEN conjunct2, THEN spec, THEN mp, OF conjI [OF t i]]
  show ?thesis
    by (intro conjI) (fact walk_typedMarkup c1 k p c c2 rc r kn q o t i g c4)+
qed

text \<open>
  C7 as stated speaks of every input with a namespaced attribute name.  In
  \<^verbatim>\<open>namespace N{<a b:c={d}/>}\<close> the markup lies inside a namespace, which the walker
  deletes whole: the rendered text is empty and the name \<^verbatim>\<open>b:c\<close> is not in it.
\<close>

theorem markup_in_namespace_counterexample:
  "markupInNamespace_name \<in> set (nodesOf markupInNamespace_tree) \<and>
   kind markupInNamespace_name = JsxNamespacedName \<and>
   getText markupInNamespace_text markupInNamespace_name = ''b:c'' \<and>
   walk markupInNamespace_text markupInNamespace_tree = Inr [(0, 25, '''')] \<and>
   transformToJs markupInNamespace_tree markupInNamespace_text = Some ''''"
  by code_simp

section \<open>Named-export lists\<close>

text \<open>
  C8, as the code has it: for every named-export list the walker reaches, it queues
  one overwrite of the list's range \<open>[pos, end)\<close> whose replacement is an opening
  brace, the original texts of the specifiers that are not type-only, in their
  order, joined by a comma followed by a space, and a closing brace.  Nothing is
  put between the opening brace and the first specifier.
\<close>

theorem namedExports_replacement:
  assumes "n \<in> set (visited root)" and "isNamedExports n" and "walk src root = Inr es"
  shows "(pos n, getEnd n,
          ''{'' @ join '', '' (map (getText src) (filter (\<lambda>e. \<not> isTypeOnly e) (elements n))) @ ''}'')
         \<in> set es"
proof -
  have "walk src n = Inr [(pos n, getEnd n,
          ''{'' @ join '', '' (map (getText src) (valueSpecifiers n)) @ ''}'')]"
    using assms(2) by (simp add: walk_returns wholeRange_namedExports)
  from visited_edits [OF assms(1) assms(3) this] show ?thesis
    by (simp add: valueSpecifiers_def)
qed

text \<open>C8, witness: \<^verbatim>\<open>export { type A, B, C };\<close> gives the replacement \<^verbatim>\<open>{B, C}\<close>.\<close>

theorem namedExports_replacement_witness:
  "mixedExport_namedExports \<in> set (visited mixedExport_tree) \<and>
   isNamedExports mixedExport_namedExports \<and>
   walk mixedExport_text mixedExport_tree = Inr [(6, 23, ''{B, C}'')] \<and>
   (pos mixedExport_namedExports, getEnd mixedExport_namedExports,
    ''{'' @ join '', '' (map (getText mixedExport_text)
       (filter (\<lambda>e. \<not> isTypeOnly e) (elements mixedExport_namedExports))) @ ''}'')
     \<in> set [(6, 23, ''{B, C}'')]"
proof -
  have k: "isNamedExports mixedExport_namedExports" by code_simp
  from namedExports_replacement [OF visited_mixedExport k walk_mixedExport]
    visited_mixedExport k walk_mixedExport
  show ?thesis by blast
qed

text \<open>
  C8 as stated asks for a space after the opening brace.  On
  \<^verbatim>\<open>export { type A, B, C };\<close> the replacement is \<^verbatim>\<open>{B, C}\<close> and the text
  renders to \<^verbatim>\<open>export{B, C};\<close>: the space follows the comma, not the brace.
\<close>

theorem namedExports_space_counterexample:
  "walk mixedExport_text mixedExport_tree = Inr [(6, 23, ''{B, C}'')] \<and>
   transformToJs mixedExport_tree mixedExport_text = Some ''export{B, C};''"
  by code_simp

section \<open>Input without type-only syntax\<close>

text \<open>
  C9, as the code has it: on a tree in which the classifier recognizes no node (no
  named-import or named-export list, no as-expression, no whole declaration, no
  declarator or function that yields an annotation edit) the walker queues no edit
  and the text renders unchanged, byte for byte; and a node that is not recognized
  passes through: its walk is the walk of its children, without an edit or a throw
  of its own.
\<close>

theorem unrecognized_passes_through:
  assumes "quiet root"
  shows "walk src root = Inr [] \<and> transformToJs root src = Some src \<and>
         (\<forall>n. \<not> recognized n \<longrightarrow> walk src n = walkChildren src (properties n))"
  using quiet_walk [OF assms, of src]
  by (simp add: transformToJs_def toString_Nil unrecognized_passes)

text \<open>C9, witness: \<^verbatim>\<open><div on:click={() => {}}></div>\<close> renders unchanged.\<close>

theorem unrecognized_passes_through_witness:
  "quiet markup_tree \<and> walk markup_text markup_tree = Inr [] \<and>
   transformToJs markup_tree markup_text = Some markup_text"
proof -
  have q: "quiet markup_tree" by code_simp
  note th = unrecognized_passes_through [OF q, of markup_text]
  show ?thesis
    by (intro conjI) (fact q th [THEN conjunct1] th [THEN conjunct2, THEN conjunct1])+
qed

text \<open>
  C9 as stated speaks of every input without type-only syntax.  The rule for named
  imports (lines 25-33) does not ask whether a specifier is type-only: in
  \<^verbatim>\<open>import { A /*c*/ } from "x"\<close> nothing is type-only, yet the list is rewritten to
  \<^verbatim>\<open>{A}\<close> from the specifiers' texts, and the comment between the braces is
  lost.  The rendered text differs from the input by more than spaces.
\<close>

theorem plain_import_rewritten_counterexample:
  \<open>filter isTypeOnly (nodesOf plainImport_tree) = [] \<and>
   filter recognized (nodesOf plainImport_tree) = [plainImport_namedImports] \<and>
   valueSpecifiers plainImport_namedImports = elements plainImport_namedImports \<and>
   plainImport_text = ''import { A /*c*/ } from "x"'' \<and>
   walk plainImport_text plainImport_tree = Inr [(6, 18, ''{A}'')] \<and>
   transformToJs plainImport_tree plainImport_text = Some ''import{A} from "x"'' \<and>
   removeAll (CHR '' '') ''import{A} from "x"'' \<noteq> removeAll (CHR '' '') plainImport_text\<close>
  by code_simp

section \<open>Leading trivia of a deleted declaration\<close>

text \<open>
  C10: for a whole declaration the walker reaches, the queued deletion starts at
  the node's \<open>pos\<close>; the deleted slice is the leading trivia from \<open>pos\<close> to the first
  token followed by the node's own text; this deletion alone renders the text
  before \<open>pos\<close> followed by the text from \<open>end\<close> on; and the rendering of all
  queued edits has the length of the text less the queued ranges plus the
  replacements, and every slice of the text that no queued range overlaps is in
  it byte for byte.
\<close>

theorem declaration_deleted_from_pos:
  assumes "n \<in> set (visited root)" and "wholeDeclaration n" and "walk src root = Inr es"
    and "toString src es = Some out" and "pos n \<le> getStart n" and "getStart n \<le> getEnd n"
  shows "(pos n, getEnd n, ''''::string) \<in> set es \<and>
         substring src (pos n) (getEnd n) = substring src (pos n) (getStart n) @ getText src n \<and>
         toString src [(pos n, getEnd n, '''')] = Some (take (pos n) src @ drop (getEnd n) src) \<and>
         length out + sum_list (map (\<lambda>e. fst (snd e) - fst e) es) =
           length src + sum_list (map (\<lambda>e. length (snd (snd e))) es) \<and>
         (\<forall>a b. a \<le> b \<and> b \<le> length src \<and> (\<forall>e \<in> set es. fst (snd e) \<le> a \<or> b \<le> fst e) \<longrightarrow>
            (\<exists>k. take (b - a) (drop k out) = take (b - a) (drop a src)))"
proof -
  have w: "walk src n = Inr [(pos n, getEnd n, '''')]"
    using assms(2) by (simp add: walk_returns wholeRange_declaration)
  from visited_edits [OF assms(1) assms(3) w] have 1: "(pos n, getEnd n, ''''::string) \<in> set es" by simp
  from assms(4) have "\<forall>e \<in> set es. inRange src e"
    by (auto simp: toString_def split: if_splits)
  with 1 have len: "getEnd n \<le> length src" by (auto simp: inRange_def)
  have "take (getEnd n - pos n) (drop (pos n) src) =
        take (getStart n - pos n) (drop (pos n) src) @ take (getEnd n - getStart n) (drop (getStart n) src)"
    using assms(5,6) take_add [of "getStart n - pos n" "getEnd n - getStart n" "drop (pos n) src"]
    by simp
  then have 2: "substring src (pos n) (getEnd n) = substring src (pos n) (getStart n) @ getText src n"
    using assms(5,6) by (simp add: substring_take_drop getText_def)
  have 3: "toString src [(pos n, getEnd n, '''')] = Some (take (pos n) src @ drop (getEnd n) src)"
    using assms(5,6) len by (simp add: toString_single)
  have 4: "\<exists>k. take (b - a) (drop k out) = take (b - a) (drop a src)"
    if "a \<le> b" "b \<le> length src" "\<forall>e \<in> set es. fst (snd e) \<le> a \<or> b \<le> fst e" for a b
    using toString_retains [OF assms(4) that] .
  note 5 = toString_length [OF assms(4)]
  from 1 2 3 5 4 show ?thesis by blast
qed

text \<open>
  C10, witness: in \<^verbatim>\<open>let x;/*c*/ type A = B;\<close> the alias has \<open>pos\<close> 6 and its first
  token starts at 12; the comment goes with it and \<^verbatim>\<open>let x;\<close> stays.
\<close>

theorem declaration_deleted_from_pos_witness:
  "commented_alias \<in> set (visited commented_tree) \<and> wholeDeclaration commented_alias \<and>
   walk commented_text commented_tree = Inr [(6, 23, '''')] \<and>
   toString commented_text [(6, 23, '''')] = Some ''let x;'' \<and>
   pos commented_alias = 6 \<and> getStart commented_alias = 12 \<and> getEnd commented_alias = 23 \<and>
   (pos commented_alias, getEnd commented_alias, ''''::string) \<in> set [(6, 23, '''')] \<and>
   substring commented_text (pos commented_alias) (getEnd commented_alias) =
     substring commented_text (pos commented_alias) (getStart commented_alias) @
     getText commented_text commented_alias \<and>
   substring commented_text 6 12 = ''/*c*/ '' \<and>
   toString commented_text [(pos commented_alias, getEnd commented_alias, '''')] =
     Some (take (pos commented_alias) commented_text @ drop (getEnd commented_alias) commented_text) \<and>
   length ''let x;'' + sum_list (map (\<lambda>e. fst (snd e) - fst e) [(6::nat, 23::nat, ''''::string)]) =
     length commented_text +
     sum_list (map (\<lambda>e. length (snd (snd e))) [(6::nat, 23::nat, ''''::string)]) \<and>
   (\<exists>k. take (6 - 0) (drop k ''let x;'') = take (6 - 0) (drop 0 commented_text))"
proof -
  have v: "commented_alias \<in> set (visited commented_tree)" by code_simp
  have k: "wholeDeclaration commented_alias" by code_simp
  have t: "toString commented_text [(6, 23, '''')] = Some ''let x;''" by code_simp
  have p: "pos commented_alias = 6" "getStart commented_alias = 12" "getEnd commented_alias = 23"
    by code_simp+
  have p': "pos commented_alias \<le> getStart commented_alias"
    "getStart commented_alias \<le> getEnd commented_alias"
    by (simp_all add: p)
  have s: "substring commented_text 6 12 = ''/*c*/ ''" by code_simp
  have len: "(0::nat) \<le> 6 \<and> 6 \<le> length commented_text \<and>
    (\<forall>e \<in> set [(6::nat, 23::nat, ''''::string)]. fst (snd e) \<le> 0 \<or> 6 \<le> fst e)"
    by (simp add: commented_text_def)
  note th = declaration_deleted_from_pos [OF v k walk_commented t p']
  note c1 = th [THEN conjunct1]
  note c2 = th [THEN conjunct2, THEN conjunct1]
  note c3 = th [THEN conjunct2, THEN conjunct2, THEN conjunct1]
  note c4 = th [THEN conjunct2, THEN conjunct2, THEN conjunct2, THEN conjunct1]
  note c5 = th [THEN conjunct2, THEN conjunct2, THEN conjunct2, THEN conjunct2, rule_format, OF len]
  show ?thesis
    by (intro conjI) (fact v k walk_commented t p c1 c2 s c3 c4 c5)+
qed

end
